theory Spec2Isabelle
  imports Main "HOL-Library.Char_ord" "HOL-Library.List_Lexorder" "HOL-Library.Sublist"
begin

section \<open>Python strings\<close>

text \<open>
  The repository holds three revisions of one single-file application:
  \<^verbatim>\<open>mcrws1.py\<close> (v5.1.1), \<^verbatim>\<open>mcrws2.py\<close> (v8.0.0) and \<^verbatim>\<open>mcrws3.py\<close> (v11.0.0).
  A definition that embeds a function of one revision carries the suffix
  \<open>_ws1\<close>, \<open>_ws2\<close> or \<open>_ws3\<close>; a definition without a suffix embeds code that
  is the same in all three.

  A Python \<^verbatim>\<open>str\<close> is a \<^typ>\<open>string\<close>: a list of 8-bit characters, read as the
  code points 0 to 255.
\<close>

abbreviation LF :: char where "LF \<equiv> CHR 0x0A"
abbreviation CR :: char where "CR \<equiv> CHR 0x0D"

definition isspace :: "char \<Rightarrow> bool" where
  \<comment> \<open>\<^verbatim>\<open>str.isspace\<close> on one character; the same set is what \<^verbatim>\<open>str.strip()\<close> removes
     and what \<^verbatim>\<open>\s\<close> matches in a \<^verbatim>\<open>str\<close> pattern.\<close>
  "isspace c \<longleftrightarrow> c \<in> {CHR 0x09, CHR 0x0A, CHR 0x0B, CHR 0x0C, CHR 0x0D,
     CHR 0x1C, CHR 0x1D, CHR 0x1E, CHR 0x1F, CHR 0x20, CHR 0x85, CHR 0xA0}"

definition is_linebreak :: "char \<Rightarrow> bool" where
  \<comment> \<open>the line boundaries of \<^verbatim>\<open>str.splitlines()\<close> (below code point 256)\<close>
  "is_linebreak c \<longleftrightarrow> c \<in> {CHR 0x0A, CHR 0x0B, CHR 0x0C, CHR 0x0D,
     CHR 0x1C, CHR 0x1D, CHR 0x1E, CHR 0x85}"

definition is_lower_az :: "char \<Rightarrow> bool" where
  \<comment> \<open>the character class \<^verbatim>\<open>[a-z]\<close>\<close>
  "is_lower_az c \<longleftrightarrow> CHR ''a'' \<le> c \<and> c \<le> CHR ''z''"

definition ident_char :: "char \<Rightarrow> bool" where
  \<comment> \<open>the character class \<^verbatim>\<open>[a-zA-Z0-9_]\<close>\<close>
  "ident_char c \<longleftrightarrow> (CHR ''a'' \<le> c \<and> c \<le> CHR ''z'') \<or> (CHR ''A'' \<le> c \<and> c \<le> CHR ''Z'')
     \<or> (CHR ''0'' \<le> c \<and> c \<le> CHR ''9'') \<or> c = CHR ''_''"

definition lstrip :: "string \<Rightarrow> string" where
  "lstrip s = dropWhile isspace s"

definition rstrip :: "string \<Rightarrow> string" where
  "rstrip s = rev (dropWhile isspace (rev s))"

definition strip :: "string \<Rightarrow> string" where
  \<comment> \<open>\<^verbatim>\<open>s.strip()\<close>\<close>
  "strip s = rstrip (lstrip s)"

definition trimmed :: "string \<Rightarrow> bool" where
  \<comment> \<open>not empty, and no whitespace at either end: \<^verbatim>\<open>s and s == s.strip()\<close>\<close>
  "trimmed s \<longleftrightarrow> s \<noteq> [] \<and> \<not> isspace (hd s) \<and> \<not> isspace (last s)"

definition unbroken :: "string \<Rightarrow> bool" where
  \<comment> \<open>no line boundary inside: \<^verbatim>\<open>s.splitlines()\<close> does not cut the string\<close>
  "unbroken c \<longleftrightarrow> (\<forall>x\<in>set c. \<not> is_linebreak x)"

definition rstrip_dot :: "string \<Rightarrow> string" where
  \<comment> \<open>\<^verbatim>\<open>s.rstrip('.')\<close>\<close>
  "rstrip_dot s = rev (dropWhile (\<lambda>c. c = CHR ''.'') (rev s))"

definition startswith :: "string \<Rightarrow> string \<Rightarrow> bool" where
  "startswith s pre \<longleftrightarrow> take (length pre) s = pre"

definition endswith :: "string \<Rightarrow> string \<Rightarrow> bool" where
  "endswith s suf \<longleftrightarrow> take (length suf) (rev s) = rev suf"

fun contains :: "string \<Rightarrow> string \<Rightarrow> bool" where
  \<comment> \<open>\<^verbatim>\<open>sub in s\<close>\<close>
  "contains sub [] = (sub = [])"
| "contains sub (c # cs) = (startswith (c # cs) sub \<or> contains sub cs)"

definition count_char :: "char \<Rightarrow> string \<Rightarrow> nat" where
  \<comment> \<open>\<^verbatim>\<open>s.count(ch)\<close> for a one-character \<^verbatim>\<open>ch\<close>\<close>
  "count_char ch s = length (filter (\<lambda>c. c = ch) s)"

fun join :: "string \<Rightarrow> string list \<Rightarrow> string" where
  \<comment> \<open>\<^verbatim>\<open>sep.join(xs)\<close>\<close>
  "join sep [] = []"
| "join sep [x] = x"
| "join sep (x # y # ys) = x @ sep @ join sep (y # ys)"

fun split_acc :: "char \<Rightarrow> string \<Rightarrow> string \<Rightarrow> string list" where
  "split_acc sep cur [] = [cur]"
| "split_acc sep cur (c # cs) =
     (if c = sep then cur # split_acc sep [] cs else split_acc sep (cur @ [c]) cs)"

definition split_char :: "char \<Rightarrow> string \<Rightarrow> string list" where
  \<comment> \<open>\<^verbatim>\<open>s.split(sep)\<close> for a one-character separator: empty pieces are kept.\<close>
  "split_char sep s = split_acc sep [] s"

fun split_rule_acc :: "string \<Rightarrow> string \<Rightarrow> string list" where
  "split_rule_acc cur [] = [cur]"
| "split_rule_acc cur (c # cs) =
     (if c = CHR '':'' \<and> startswith cs ''-'' then cur # split_rule_acc [] (tl cs)
      else split_rule_acc (cur @ [c]) cs)"

definition split_rule :: "string \<Rightarrow> string list" where
  \<comment> \<open>\<^verbatim>\<open>s.split(':-')\<close>\<close>
  "split_rule s = split_rule_acc [] s"

fun splitlines_acc :: "string \<Rightarrow> string \<Rightarrow> string list" where
  "splitlines_acc cur [] = (if cur = [] then [] else [cur])"
| "splitlines_acc cur (c # cs) =
     (if c = CR \<and> startswith cs [LF] then cur # splitlines_acc [] (tl cs)
      else if is_linebreak c then cur # splitlines_acc [] cs
      else splitlines_acc (cur @ [c]) cs)"

definition splitlines :: "string \<Rightarrow> string list" where
  \<comment> \<open>\<^verbatim>\<open>s.splitlines()\<close>: a line ends at a line boundary (CR LF counts once); the
     boundaries are dropped and there is no empty last line.\<close>
  "splitlines s = splitlines_acc [] s"

definition digit_char :: "nat \<Rightarrow> char" where
  "digit_char n = ''0123456789'' ! (n mod 10)"

fun str_nat :: "nat \<Rightarrow> string" where
  \<comment> \<open>\<^verbatim>\<open>str(n)\<close> for a non-negative integer\<close>
  "str_nat n = (if n < 10 then [digit_char n] else str_nat (n div 10) @ [digit_char (n mod 10)])"

definition str_int :: "int \<Rightarrow> string" where
  \<comment> \<open>\<^verbatim>\<open>str(i)\<close>\<close>
  "str_int i = (if i < 0 then ''-'' @ str_nat (nat (- i)) else str_nat (nat i))"

section \<open>Clause normalizer: \<^verbatim>\<open>MCRService._extract_prolog\<close>\<close>

subsection \<open>mcrws1.py and mcrws2.py: line by line\<close>

text \<open>
  \<^verbatim>\<open>
  lines = [line.strip() for line in text.split('\n')
           if line.strip() and not line.strip().startswith('%')]
  return [f"{line}" if line.endswith('.') else f"{line}." for line in lines]      # mcrws1
  return [f"{line}" if re.search(r'[:.]$', line) else f"{line}." for line in lines]  # mcrws2
  \<close>
\<close>

definition kept_lines :: "string \<Rightarrow> string list" where
  "kept_lines text =
     map strip (filter (\<lambda>line. strip line \<noteq> [] \<and> \<not> startswith (strip line) ''%'')
                  (split_char LF text))"

definition extract_prolog_ws1 :: "string \<Rightarrow> string list" where
  "extract_prolog_ws1 text =
     map (\<lambda>line. if endswith line ''.'' then line else line @ ''.'') (kept_lines text)"

definition search_colon_dot_end :: "string \<Rightarrow> bool" where
  \<comment> \<open>\<^verbatim>\<open>re.search(r'[:.]$', line)\<close>: without MULTILINE, \<^verbatim>\<open>$\<close> is the end of the string
     or the position before a newline that ends the string.\<close>
  "search_colon_dot_end line \<longleftrightarrow>
     endswith line ''.'' \<or> endswith line '':'' \<or>
     endswith line [CHR ''.'', LF] \<or> endswith line [CHR '':'', LF]"

definition extract_prolog_ws2 :: "string \<Rightarrow> string list" where
  "extract_prolog_ws2 text =
     map (\<lambda>line. if search_colon_dot_end line then line else line @ ''.'') (kept_lines text)"

subsection \<open>mcrws3.py: one regular expression over the whole text\<close>

text \<open>
  \<^verbatim>\<open>
  prolog_pattern = re.compile(r"^[a-z][a-zA-Z0-9_]*\((?:.|\n)*?\)\.?\s*(?::-.*)?", re.MULTILINE)
  clauses = prolog_pattern.findall(text)
  return [line.strip() if line.strip().endswith('.') else f"{line.strip()}." for line in clauses]
  \<close>
  The pattern has no capturing group, so \<^verbatim>\<open>findall\<close> returns the matched texts.
  Matching is deterministic: the class \<^verbatim>\<open>[a-zA-Z0-9_]\<close> excludes \<^verbatim>\<open>(\<close>, so the greedy name
  is the longest one; everything after \<^verbatim>\<open>\)\<close> may match the empty string, so the lazy
  \<^verbatim>\<open>(?:.|\n)*?\<close> stops at the first \<^verbatim>\<open>)\<close> and the greedy \<^verbatim>\<open>\.?\<close>, \<^verbatim>\<open>\s*\<close> and
  \<^verbatim>\<open>(?::-.*)?\<close> take what they can; \<^verbatim>\<open>.\<close> is every character but the newline.
\<close>

definition match_name_paren :: "string \<Rightarrow> (string \<times> string) option" where
  \<comment> \<open>\<^verbatim>\<open>[a-z][a-zA-Z0-9_]*\(\<close> at the start of the string: the name, and the text after
     the parenthesis.\<close>
  "match_name_paren s =
     (case s of
        [] \<Rightarrow> None
      | c # cs \<Rightarrow>
          if \<not> is_lower_az c then None
          else (case dropWhile ident_char cs of
                  [] \<Rightarrow> None
                | p # rest \<Rightarrow>
                    if p = CHR ''('' then Some (c # takeWhile ident_char cs, rest) else None))"

definition valid_name :: "string \<Rightarrow> bool" where
  \<comment> \<open>the whole string matches \<^verbatim>\<open>[a-z][a-zA-Z0-9_]*\<close>\<close>
  "valid_name name \<longleftrightarrow>
     name \<noteq> [] \<and> is_lower_az (hd name) \<and> (\<forall>x\<in>set (tl name). ident_char x)"

definition take_dot :: "string \<Rightarrow> string \<times> string" where
  \<comment> \<open>\<^verbatim>\<open>\.?\<close>\<close>
  "take_dot r = (if startswith r ''.'' then (''.'', drop 1 r) else ([], r))"

definition take_space :: "string \<Rightarrow> string \<times> string" where
  \<comment> \<open>\<^verbatim>\<open>\s*\<close>\<close>
  "take_space r = (takeWhile isspace r, dropWhile isspace r)"

definition take_body :: "string \<Rightarrow> string \<times> string" where
  \<comment> \<open>\<^verbatim>\<open>(?::-.*)?\<close>\<close>
  "take_body r =
     (if startswith r '':-''
      then ('':-'' @ takeWhile (\<lambda>x. x \<noteq> LF) (drop 2 r), dropWhile (\<lambda>x. x \<noteq> LF) (drop 2 r))
      else ([], r))"

definition match_prolog :: "string \<Rightarrow> (string \<times> string) option" where
  \<comment> \<open>the pattern after its \<^verbatim>\<open>^\<close>, at the start of the string: the matched text and
     the text left over.\<close>
  "match_prolog s =
     (case match_name_paren s of
        None \<Rightarrow> None
      | Some (name, r2) \<Rightarrow>
          (case dropWhile (\<lambda>x. x \<noteq> CHR '')'') r2 of
             [] \<Rightarrow> None
           | _ # r4 \<Rightarrow>
               (case take_dot r4 of (dot, r5) \<Rightarrow>
                case take_space r5 of (ws, r6) \<Rightarrow>
                case take_body r6 of (body, r7) \<Rightarrow>
                  Some (name @ ''('' @ takeWhile (\<lambda>x. x \<noteq> CHR '')'') r2 @ '')'' @ dot @ ws @ body,
                        r7))))"

lemma startswith_append: "startswith s pre \<Longrightarrow> s = pre @ drop (length pre) s"
  by (metis append_take_drop_id startswith_def)

lemma take_dot_split: "take_dot r = (a, b) \<Longrightarrow> r = a @ b"
  by (auto simp: take_dot_def dest: startswith_append split: if_splits)

lemma take_space_split: "take_space r = (a, b) \<Longrightarrow> r = a @ b"
  by (auto simp: take_space_def)

lemma take_body_split: "take_body r = (a, b) \<Longrightarrow> r = a @ b"
proof (cases "startswith r '':-''")
  case True
  assume "take_body r = (a, b)"
  with True have a: "a = '':-'' @ takeWhile (\<lambda>x. x \<noteq> LF) (drop 2 r)"
    and b: "b = dropWhile (\<lambda>x. x \<noteq> LF) (drop 2 r)"
    by (simp_all add: take_body_def)
  from startswith_append [OF True] have "r = '':-'' @ drop 2 r" by (simp add: numeral_2_eq_2)
  also have "drop 2 r = takeWhile (\<lambda>x. x \<noteq> LF) (drop 2 r) @ dropWhile (\<lambda>x. x \<noteq> LF) (drop 2 r)"
    by simp
  finally show ?thesis using a b by simp
next
  case False
  assume "take_body r = (a, b)"
  with False show ?thesis by (simp add: take_body_def)
qed

lemma match_name_paren_split:
  assumes "match_name_paren s = Some (name, rest)"
  shows "s = name @ ''('' @ rest" and "name \<noteq> []"
proof -
  from assms obtain c cs p where s: "s = c # cs" and d: "dropWhile ident_char cs = p # rest"
    and p: "p = CHR ''(''" and n: "name = c # takeWhile ident_char cs"
    by (auto simp: match_name_paren_def split: list.splits if_splits)
  have "cs = takeWhile ident_char cs @ dropWhile ident_char cs" by simp
  with s d p n show "s = name @ ''('' @ rest" by simp
  from n show "name \<noteq> []" by simp
qed

lemma match_prolog_parts:
  assumes "match_prolog s = Some (m, rest)"
  obtains name r2 r4 dot r5 ws r6 body where
    "match_name_paren s = Some (name, r2)"
    "r2 = takeWhile (\<lambda>x. x \<noteq> CHR '')'') r2 @ '')'' @ r4"
    "take_dot r4 = (dot, r5)" "take_space r5 = (ws, r6)" "take_body r6 = (body, rest)"
    "m = name @ ''('' @ takeWhile (\<lambda>x. x \<noteq> CHR '')'') r2 @ '')'' @ dot @ ws @ body"
proof -
  from assms obtain name r2 where np: "match_name_paren s = Some (name, r2)"
    by (auto simp: match_prolog_def split: option.splits)
  from assms np obtain q r4 where d: "dropWhile (\<lambda>x. x \<noteq> CHR '')'') r2 = q # r4"
    by (auto simp: match_prolog_def split: list.splits)
  obtain dot r5 where td: "take_dot r4 = (dot, r5)" by (cases "take_dot r4")
  obtain ws r6 where ts: "take_space r5 = (ws, r6)" by (cases "take_space r5")
  obtain body r7 where tb: "take_body r6 = (body, r7)" by (cases "take_body r6")
  from assms np d td ts tb
  have m: "m = name @ ''('' @ takeWhile (\<lambda>x. x \<noteq> CHR '')'') r2 @ '')'' @ dot @ ws @ body"
    and r: "rest = r7"
    by (simp_all add: match_prolog_def)
  have q: "q = CHR '')''"
    using d hd_dropWhile [of "\<lambda>x. x \<noteq> CHR '')''" r2] by auto
  have "r2 = takeWhile (\<lambda>x. x \<noteq> CHR '')'') r2 @ dropWhile (\<lambda>x. x \<noteq> CHR '')'') r2" by simp
  with d q have r2: "r2 = takeWhile (\<lambda>x. x \<noteq> CHR '')'') r2 @ '')'' @ r4" by simp
  from np r2 td ts tb m r that show thesis by blast
qed

lemma match_prolog_split:
  assumes "match_prolog s = Some (m, rest)"
  shows "s = m @ rest" and "m \<noteq> []"
proof -
  from assms obtain name r2 r4 dot r5 ws r6 body where
    np: "match_name_paren s = Some (name, r2)"
    and r2: "r2 = takeWhile (\<lambda>x. x \<noteq> CHR '')'') r2 @ '')'' @ r4"
    and td: "take_dot r4 = (dot, r5)" and ts: "take_space r5 = (ws, r6)"
    and tb: "take_body r6 = (body, rest)"
    and m: "m = name @ ''('' @ takeWhile (\<lambda>x. x \<noteq> CHR '')'') r2 @ '')'' @ dot @ ws @ body"
    by (rule match_prolog_parts)
  have "s = name @ ''('' @ r2" by (rule match_name_paren_split(1) [OF np])
  also have "r2 = takeWhile (\<lambda>x. x \<noteq> CHR '')'') r2 @ '')'' @ r4" by (rule r2)
  also have "r4 = dot @ r5" by (rule take_dot_split [OF td])
  also have "r5 = ws @ r6" by (rule take_space_split [OF ts])
  also have "r6 = body @ rest" by (rule take_body_split [OF tb])
  finally show "s = m @ rest" using m by simp
  from m match_name_paren_split(2) [OF np] show "m \<noteq> []" by simp
qed

lemma match_prolog_shorter:
  assumes "match_prolog s = Some (m, rest)"
  shows "length rest < length s"
proof -
  from match_prolog_split [OF assms] have "length s = length m + length rest" and "0 < length m"
    by simp_all
  then show ?thesis by simp
qed

function findall_prolog :: "bool \<Rightarrow> string \<Rightarrow> string list" where
  \<comment> \<open>\<^verbatim>\<open>prolog_pattern.findall\<close>, scanning from left to right; the flag says whether the
     position is the start of the text or follows a newline (\<^verbatim>\<open>^\<close> under MULTILINE).\<close>
  "findall_prolog bol [] = []"
| "findall_prolog bol (c # cs) =
     (if bol then
        (case match_prolog (c # cs) of
           Some (m, rest) \<Rightarrow> m # findall_prolog (last m = LF) rest
         | None \<Rightarrow> findall_prolog (c = LF) cs)
      else findall_prolog (c = LF) cs)"
  by pat_completeness auto
termination
  by (relation "measure (\<lambda>(bol, s). length s)") (auto dest: match_prolog_shorter)

definition extract_prolog_ws3 :: "string \<Rightarrow> string list" where
  "extract_prolog_ws3 text =
     map (\<lambda>line. if endswith (strip line) ''.'' then strip line else strip line @ ''.'')
       (findall_prolog True text)"

section \<open>Schema extractor: \<^verbatim>\<open>MCRService._get_kb_schema\<close>\<close>

definition schema_lines :: "string \<Rightarrow> string list" where
  \<comment> \<open>the lines the loop body works on: stripped, not blank, not a comment
     (\<^verbatim>\<open>line = line.strip(); if not line or line.startswith('%'): continue\<close>).\<close>
  "schema_lines kb_string =
     filter (\<lambda>line. line \<noteq> [] \<and> \<not> startswith line ''%'') (map strip (splitlines kb_string))"

definition rule_head :: "string \<Rightarrow> string" where
  \<comment> \<open>\<^verbatim>\<open>line.split(':-')[0]\<close>\<close>
  "rule_head line = hd (split_rule line)"

subsection \<open>mcrws2.py\<close>

text \<open>
  \<^verbatim>\<open>
  match = re.match(r'([a-z][a-zA-Z0-9_]*)\(', line)
  if match:
      name = match.group(1)
      arity = line.count(',') + 1 if '(' in line and ')' in line else 0
      if ':-' in line: arity -= line.split(':-')[1].count(',')
      predicates.add(f"{name}/{arity}")
  ...
  return sorted(list(predicates))
  \<close>
\<close>

definition arity_ws2 :: "string \<Rightarrow> int" where
  "arity_ws2 line =
     (let arity = (if CHR ''('' \<in> set line \<and> CHR '')'' \<in> set line
                   then int (count_char CHR '','' line) + 1 else 0)
      in if contains '':-'' line
         then arity - int (count_char CHR '','' (split_rule line ! 1))
         else arity)"

definition signature_ws2 :: "string \<Rightarrow> string option" where
  "signature_ws2 line =
     (case match_name_paren line of
        None \<Rightarrow> None
      | Some (name, _) \<Rightarrow> Some (name @ ''/'' @ str_int (arity_ws2 line)))"

definition get_kb_schema_ws2 :: "string \<Rightarrow> string list" where
  "get_kb_schema_ws2 kb_string =
     sort (remdups (List.map_filter signature_ws2 (schema_lines kb_string)))"

subsection \<open>mcrws3.py\<close>

text \<open>
  \<^verbatim>\<open>
  predicate_regex = re.compile(r'([a-z][a-zA-Z0-9_]*)\s*(?::-|.)')
  atom_regex = re.compile(r'\(([a-zA-Z0-9_,\s]+)\)')
  ...
  if pred_match := predicate_regex.match(line):
      name = pred_match.group(1); head = line.split(':-')[0]
      arity = 0 if '()' in head else head.count(',') + 1
      schema_items.add(f"{name}/{arity}")
  for atom_match in atom_regex.finditer(line):
      for atom in (a.strip() for a in atom_match.group(1).split(',')):
          if atom and atom[0].islower(): schema_items.add(atom)
  ...
  return sorted(list(schema_items))
  \<close>
\<close>

definition predicate_match :: "string \<Rightarrow> string option" where
  \<comment> \<open>\<^verbatim>\<open>predicate_regex.match(line)\<close>, its group 1. After the longest name and the
     longest run of whitespace one more character other than a newline must follow;
     when the text ends there, the matcher backtracks: first into the whitespace, then
     into the name, whose last character is then the one that \<^verbatim>\<open>.\<close> matches.\<close>
  "predicate_match s =
     (case s of
        [] \<Rightarrow> None
      | c # cs \<Rightarrow>
          if \<not> is_lower_az c then None
          else let ident = takeWhile ident_char cs;
                   r = dropWhile ident_char cs;
                   ws = takeWhile isspace r
               in if dropWhile isspace r \<noteq> [] then Some (c # ident)
                  else if filter (\<lambda>x. x \<noteq> LF) ws \<noteq> [] then Some (c # ident)
                  else if ident \<noteq> [] then Some (c # butlast ident)
                  else None)"

definition arity_ws3 :: "string \<Rightarrow> nat" where
  "arity_ws3 head = (if contains ''()'' head then 0 else count_char CHR '','' head + 1)"

definition signature_ws3 :: "string \<Rightarrow> string option" where
  "signature_ws3 line =
     (case predicate_match line of
        None \<Rightarrow> None
      | Some name \<Rightarrow> Some (name @ ''/'' @ str_nat (arity_ws3 (rule_head line))))"

definition atom_class :: "char \<Rightarrow> bool" where
  \<comment> \<open>the character class \<^verbatim>\<open>[a-zA-Z0-9_,\s]\<close>\<close>
  "atom_class c \<longleftrightarrow> ident_char c \<or> c = CHR '','' \<or> isspace c"

lemma dropWhile_shorter: "length (dropWhile P cs) - Suc 0 < Suc (length cs)"
  using length_dropWhile_le [of P cs] by arith

function atom_groups :: "string \<Rightarrow> string list" where
  \<comment> \<open>group 1 of every match of \<^verbatim>\<open>atom_regex.finditer(line)\<close>, from left to right\<close>
  "atom_groups [] = []"
| "atom_groups (c # cs) =
     (if c = CHR ''('' \<and> takeWhile atom_class cs \<noteq> [] \<and> startswith (dropWhile atom_class cs) '')''
      then takeWhile atom_class cs # atom_groups (drop 1 (dropWhile atom_class cs))
      else atom_groups cs)"
  by pat_completeness auto
termination
  by (relation "measure length") (auto simp: dropWhile_shorter)

definition atoms_of_group :: "string \<Rightarrow> string list" where
  \<comment> \<open>The first character of a stripped piece is one of \<^verbatim>\<open>[a-zA-Z0-9_]\<close>, on which
     \<^verbatim>\<open>str.islower\<close> is the test for \<^verbatim>\<open>a-z\<close>.\<close>
  "atoms_of_group g =
     filter (\<lambda>atom. atom \<noteq> [] \<and> is_lower_az (hd atom)) (map strip (split_char CHR '','' g))"

definition line_items_ws3 :: "string \<Rightarrow> string list" where
  "line_items_ws3 line =
     (case signature_ws3 line of None \<Rightarrow> [] | Some sig \<Rightarrow> [sig])
     @ concat (map atoms_of_group (atom_groups line))"

definition get_kb_schema_ws3 :: "string \<Rightarrow> string list" where
  "get_kb_schema_ws3 kb_string =
     sort (remdups (concat (map line_items_ws3 (schema_lines kb_string))))"

section \<open>Errors, sessions and the collaborators of the service\<close>

datatype error =
    NotFoundError string
  | ProviderError string
  | ValidationError string
  | OtherException string  \<comment> \<open>an exception that is not an \<^verbatim>\<open>MCRError\<close>\<close>

record session =
  sessionId :: string
  knowledgeBase :: string
  createdAt :: string
  modifiedAt :: string

text \<open>
  The state a call works on: the session files of \<^verbatim>\<open>FileContextProvider\<close> (session id to
  the session stored under it), the number of \<^verbatim>\<open>save_session\<close> calls made so far, and the
  state of the language backend.
\<close>

record 'l world =
  files :: "string \<rightharpoonup> session"
  writes :: nat
  llm :: 'l

type_synonym 'l llm_provider = "'l \<Rightarrow> string \<Rightarrow> (error + string) \<times> 'l"
  \<comment> \<open>\<^verbatim>\<open>ILlmProvider.generate(prompt)\<close>: the text, or the exception raised, and the
     backend's next state.\<close>

definition quoted :: "string \<Rightarrow> string" where
  "quoted s = [CHR 0x27] @ s @ [CHR 0x27]"

definition get_session :: "'l world \<Rightarrow> string \<Rightarrow> error + session" where
  \<comment> \<open>\<^verbatim>\<open>if not session_file.exists(): raise NotFoundError(f"Session '{session_id}' not found.")\<close>\<close>
  "get_session w session_id =
     (case files w session_id of
        None \<Rightarrow> Inl (NotFoundError (''Session '' @ quoted session_id @ '' not found.''))
      | Some s \<Rightarrow> Inr s)"

definition save_session :: "'l world \<Rightarrow> string \<Rightarrow> session \<Rightarrow> 'l world" where
  \<comment> \<open>\<^verbatim>\<open>session.modifiedAt = datetime.now(...)\<close>, then the file of the session is
     written; \<open>now\<close> is the clock's reading.\<close>
  "save_session w now s =
     w\<lparr>files := (files w)(sessionId s \<mapsto> s\<lparr>modifiedAt := now\<rparr>), writes := Suc (writes w)\<rparr>"

subsection \<open>Values of the logic engine\<close>

datatype pyval =
    PNone
  | PBool bool
  | PInt int
  | PStr string
  | PList "pyval list"
  | PDict "(string \<times> pyval) list"

fun truthy :: "pyval \<Rightarrow> bool" where
  "truthy PNone = False"
| "truthy (PBool b) = b"
| "truthy (PInt i) = (i \<noteq> 0)"
| "truthy (PStr s) = (s \<noteq> [])"
| "truthy (PList xs) = (xs \<noteq> [])"
| "truthy (PDict kvs) = (kvs \<noteq> [])"

subsection \<open>Reasoning dispatcher: \<^verbatim>\<open>PythologReasonProvider\<close>\<close>

text \<open>
  The engine (pytholog) is a parameter: loading the lines of a knowledge base and
  parsing a goal either succeed or raise (\<open>Some\<close> the message); evaluating the goal in
  its thread either never finishes, or finishes after some milliseconds by raising
  (\<open>Inl\<close>) or by returning a value (\<open>Inr\<close>).
\<close>

datatype engine_run = Never | After nat "string + pyval"

record engine =
  kb_load :: "string list \<Rightarrow> string option"
  parse_expr :: "string \<Rightarrow> string option"
  kb_query :: "string list \<Rightarrow> string \<Rightarrow> engine_run"

datatype awaited = TimeoutError | Raised string | Returned pyval

definition wait_for :: "nat \<Rightarrow> engine_run \<Rightarrow> awaited" where
  \<comment> \<open>\<^verbatim>\<open>await asyncio.wait_for(asyncio.to_thread(...), timeout=seconds)\<close>\<close>
  "wait_for seconds run =
     (case run of
        Never \<Rightarrow> TimeoutError
      | After ms r \<Rightarrow>
          if seconds * 1000 < ms then TimeoutError
          else (case r of Inl e \<Rightarrow> Raised e | Inr v \<Rightarrow> Returned v))"

definition timed_out :: "nat \<Rightarrow> error" where
  "timed_out seconds = ProviderError (''Reasoning query timed out after '' @ str_nat seconds @ ''s.'')"

definition reasoning_error :: "string \<Rightarrow> error" where
  "reasoning_error e = ProviderError (''Pytholog reasoning error: '' @ e)"

text \<open>
  mcrws1.py (\<^verbatim>\<open>REASONING_TIMEOUT_SECONDS = 5\<close>) and mcrws2.py (\<^verbatim>\<open>= 10\<close>):
  \<^verbatim>\<open>
  try:
      kb = pl.KnowledgeBase("mcr_reasoner")
      kb(knowledge_base_str.splitlines())
      result = await asyncio.wait_for(asyncio.to_thread(kb.query, pl.Expr(query_str)),
                                      timeout=REASONING_TIMEOUT_SECONDS)
      return result if result is not None else []
  except asyncio.TimeoutError: raise ProviderError(f"Reasoning query timed out after ...s.")
  except Exception as e: raise ProviderError(f"Pytholog reasoning error: {e}")
  \<close>
  mcrws3.py (\<^verbatim>\<open>REASONING_TIMEOUT_SECONDS = 10\<close>) returns \<^verbatim>\<open>await ... or []\<close> instead.
\<close>

definition guarded_query :: "nat \<Rightarrow> engine \<Rightarrow> string \<Rightarrow> string \<Rightarrow> error + pyval" where
  \<comment> \<open>the \<^verbatim>\<open>try\<close> block up to the awaited value, and the two \<^verbatim>\<open>except\<close> clauses\<close>
  "guarded_query seconds eng kb_str query_str =
     (case kb_load eng (splitlines kb_str) of
        Some e \<Rightarrow> Inl (reasoning_error e)
      | None \<Rightarrow>
          (case parse_expr eng query_str of
             Some e \<Rightarrow> Inl (reasoning_error e)
           | None \<Rightarrow>
               (case wait_for seconds (kb_query eng (splitlines kb_str) query_str) of
                  TimeoutError \<Rightarrow> Inl (timed_out seconds)
                | Raised e \<Rightarrow> Inl (reasoning_error e)
                | Returned r \<Rightarrow> Inr r)))"

definition query_ws1 :: "engine \<Rightarrow> string \<Rightarrow> string \<Rightarrow> error + pyval" where
  "query_ws1 eng kb_str query_str =
     (case guarded_query 5 eng kb_str query_str of
        Inl e \<Rightarrow> Inl e
      | Inr r \<Rightarrow> Inr (if r \<noteq> PNone then r else PList []))"

definition query_ws2 :: "engine \<Rightarrow> string \<Rightarrow> string \<Rightarrow> error + pyval" where
  "query_ws2 eng kb_str query_str =
     (case guarded_query 10 eng kb_str query_str of
        Inl e \<Rightarrow> Inl e
      | Inr r \<Rightarrow> Inr (if r \<noteq> PNone then r else PList []))"

definition query_ws3 :: "engine \<Rightarrow> string \<Rightarrow> string \<Rightarrow> error + pyval" where
  "query_ws3 eng kb_str query_str =
     (case guarded_query 10 eng kb_str query_str of
        Inl e \<Rightarrow> Inl e
      | Inr r \<Rightarrow> Inr (if truthy r then r else PList []))"

datatype validation = Valid | Invalid string

definition validate :: "engine \<Rightarrow> string \<Rightarrow> validation" where
  \<comment> \<open>\<^verbatim>\<open>try: pl.KnowledgeBase("validation_kb")(kb_str.splitlines()); return {"valid": True}\<close>
     \<^verbatim>\<open>except Exception as e: return {"valid": False, "error": str(e)}\<close>\<close>
  "validate eng kb_str =
     (case kb_load eng (splitlines kb_str) of None \<Rightarrow> Valid | Some e \<Rightarrow> Invalid e)"

subsection \<open>Replacing the knowledge base: \<^verbatim>\<open>update_kb\<close>\<close>

text \<open>
  \<^verbatim>\<open>
  session = await service.context.get_session(session_id, ...)
  validation = service.reasoner.validate(body.knowledgeBase, ...)
  if not validation["valid"]: raise ValidationError(f"KB validation failed: {validation['error']}")
  session.knowledgeBase = body.knowledgeBase
  await service.context.save_session(session, ...)
  return {"message": "Knowledge base updated successfully."}
  \<close>
  The three revisions differ in the message only (\<^verbatim>\<open>"Knowledge base updated."\<close> in
  mcrws1.py and mcrws2.py), which is the first argument here: \<open>update_kb message\<close> is the
  operation of each revision at its own message.
\<close>

definition update_kb ::
  "string \<Rightarrow> engine \<Rightarrow> string \<Rightarrow> string \<Rightarrow> string \<Rightarrow> 'l world \<Rightarrow> (error + string) \<times> 'l world" where
  "update_kb message eng now session_id kb_text w =
     (case get_session w session_id of
        Inl e \<Rightarrow> (Inl e, w)
      | Inr s \<Rightarrow>
          (case validate eng kb_text of
             Invalid err \<Rightarrow> (Inl (ValidationError (''KB validation failed: '' @ err)), w)
           | Valid \<Rightarrow> (Inr message, save_session w now (s\<lparr>knowledgeBase := kb_text\<rparr>))))"

section \<open>Prompts and the language backend\<close>

datatype kwarg = KStr string | KList "string list"

type_synonym kwargs = "(string \<times> kwarg) list"

text \<open>
  \<^verbatim>\<open>PromptManager.get(template_name, **kwargs)\<close> renders the templates of a task. The
  service takes the prompt manager as a collaborator, and the model takes the rendering
  as a parameter: one prompt per task in mcrws1.py and mcrws2.py, a list of variants in
  mcrws3.py (empty for an unknown task).
\<close>

type_synonym prompt_manager = "string \<Rightarrow> kwargs \<Rightarrow> string"

type_synonym prompt_manager_ws3 = "string \<Rightarrow> kwargs \<Rightarrow> string list"

definition generate :: "'l llm_provider \<Rightarrow> 'l world \<Rightarrow> string \<Rightarrow> (error + string) \<times> 'l world" where
  \<comment> \<open>\<^verbatim>\<open>await self.llm.generate(prompt, trace_id)\<close>\<close>
  "generate gen w prompt = (case gen (llm w) prompt of (r, l') \<Rightarrow> (r, w\<lparr>llm := l'\<rparr>))"

subsection \<open>Prompt chain executor: \<^verbatim>\<open>MCRService._run_prompt_chain\<close> (mcrws3.py)\<close>

text \<open>
  \<^verbatim>\<open>
  prompts = self.prompts.get(template_name, **kwargs)
  if not prompts: raise ProviderError(f"No prompt templates found for '{template_name}'.")
  for i, prompt in enumerate(prompts):
      llm_response = await self.llm.generate(prompt, trace_id)
      if llm_response and llm_response.strip():
          return llm_response.strip()
  raise ProviderError(f"LLM failed for '{template_name}' after trying all {len(prompts)} variants.")
  \<close>
  The call of \<^verbatim>\<open>generate\<close> stands in no \<^verbatim>\<open>try\<close>: an exception of the backend leaves
  the loop and the function.
\<close>

fun try_prompts ::
  "'l llm_provider \<Rightarrow> string list \<Rightarrow> 'l world \<Rightarrow> (error + string option) \<times> 'l world" where
  \<comment> \<open>the \<^verbatim>\<open>for\<close> loop: \<open>Inr None\<close> when it runs to its end\<close>
  "try_prompts gen [] w = (Inr None, w)"
| "try_prompts gen (prompt # rest) w =
     (case generate gen w prompt of
        (Inl e, w') \<Rightarrow> (Inl e, w')
      | (Inr llm_response, w') \<Rightarrow>
          if llm_response \<noteq> [] \<and> strip llm_response \<noteq> [] then (Inr (Some (strip llm_response)), w')
          else try_prompts gen rest w')"

definition no_templates :: "string \<Rightarrow> error" where
  "no_templates template_name =
     ProviderError (''No prompt templates found for '' @ quoted template_name @ ''.'')"

definition all_variants_failed :: "string \<Rightarrow> nat \<Rightarrow> error" where
  "all_variants_failed template_name n =
     ProviderError (''LLM failed for '' @ quoted template_name @ '' after trying all ''
                    @ str_nat n @ '' variants.'')"

definition run_prompt_chain ::
  "prompt_manager_ws3 \<Rightarrow> 'l llm_provider \<Rightarrow> string \<Rightarrow> kwargs \<Rightarrow> 'l world
     \<Rightarrow> (error + string) \<times> 'l world" where
  "run_prompt_chain pm gen template_name kw w =
     (let prompts = pm template_name kw
      in if prompts = [] then (Inl (no_templates template_name), w)
         else (case try_prompts gen prompts w of
                 (Inl e, w') \<Rightarrow> (Inl e, w')
               | (Inr (Some text), w') \<Rightarrow> (Inr text, w')
               | (Inr None, w') \<Rightarrow> (Inl (all_variants_failed template_name (length prompts)), w')))"

section \<open>Session pipeline: assert\<close>

record assert_response_ws1 =
  addedFacts :: "string list"
  knowledgeBase_resp :: string  \<comment> \<open>the field \<^verbatim>\<open>knowledgeBase\<close> of \<^verbatim>\<open>AssertResponse\<close>\<close>

record assert_response_ws2 = assert_response_ws1 +
  translatedProlog :: "string list"

record assert_response_ws3 = assert_response_ws2 +
  intent :: string

definition added_ws1 :: "string \<Rightarrow> string list \<Rightarrow> string list" where
  \<comment> \<open>mcrws1.py, mcrws2.py:
     \<^verbatim>\<open>current_kb_lines = set(session.knowledgeBase.splitlines())\<close>;
     \<^verbatim>\<open>added = [fact for fact in new_facts if fact not in current_kb_lines]\<close>\<close>
  "added_ws1 kb new_facts = filter (\<lambda>fact. fact \<notin> set (splitlines kb)) new_facts"

definition added_ws3 :: "string \<Rightarrow> string list \<Rightarrow> string list" where
  \<comment> \<open>mcrws3.py: \<^verbatim>\<open>added = [c for c in new_clauses if c not in\<close>
     \<^verbatim>\<open>(line.strip() for line in session.knowledgeBase.splitlines())]\<close>\<close>
  "added_ws3 kb new_clauses = filter (\<lambda>c. c \<notin> set (map strip (splitlines kb))) new_clauses"

definition appended_kb :: "string \<Rightarrow> string list \<Rightarrow> string" where
  \<comment> \<open>\<^verbatim>\<open>(session.knowledgeBase + "\n" + "\n".join(added)).strip()\<close>\<close>
  "appended_kb kb added = strip (kb @ [LF] @ join [LF] added)"

definition store_added :: "'l world \<Rightarrow> string \<Rightarrow> session \<Rightarrow> string list \<Rightarrow> string \<times> 'l world" where
  \<comment> \<open>\<^verbatim>\<open>if added: session.knowledgeBase = ...; await self.context.save_session(session, ...)\<close>;
     the result is \<^verbatim>\<open>session.knowledgeBase\<close> afterwards, and the state.\<close>
  "store_added w now s added =
     (if added \<noteq> []
      then (appended_kb (knowledgeBase s) added,
            save_session w now (s\<lparr>knowledgeBase := appended_kb (knowledgeBase s) added\<rparr>))
      else (knowledgeBase s, w))"

definition assert_into_session_ws1 ::
  "prompt_manager \<Rightarrow> 'l llm_provider \<Rightarrow> string \<Rightarrow> string \<Rightarrow> string \<Rightarrow> 'l world
     \<Rightarrow> (error + assert_response_ws1) \<times> 'l world" where
  "assert_into_session_ws1 pm gen now session_id text w =
     (case get_session w session_id of
        Inl e \<Rightarrow> (Inl e, w)
      | Inr s \<Rightarrow>
          (case generate gen w (pm ''NL_TO_RULES'' [(''text'', KStr text)]) of
             (Inl e, w1) \<Rightarrow> (Inl e, w1)
           | (Inr llm_response, w1) \<Rightarrow>
               let new_facts = extract_prolog_ws1 llm_response;
                   added = added_ws1 (knowledgeBase s) new_facts
               in (case store_added w1 now s added of
                     (kb, w2) \<Rightarrow> (Inr \<lparr>addedFacts = added, knowledgeBase_resp = kb\<rparr>, w2))))"

definition assert_into_session_ws2 ::
  "prompt_manager \<Rightarrow> 'l llm_provider \<Rightarrow> string \<Rightarrow> string \<Rightarrow> string \<Rightarrow> 'l world
     \<Rightarrow> (error + assert_response_ws2) \<times> 'l world" where
  "assert_into_session_ws2 pm gen now session_id text w =
     (case get_session w session_id of
        Inl e \<Rightarrow> (Inl e, w)
      | Inr s \<Rightarrow>
          let schema = get_kb_schema_ws2 (knowledgeBase s)
          in (case generate gen w (pm ''NL_TO_RULES'' [(''text'', KStr text), (''schema'', KList schema)]) of
                (Inl e, w1) \<Rightarrow> (Inl e, w1)
              | (Inr llm_response, w1) \<Rightarrow>
                  let new_facts = extract_prolog_ws2 llm_response;
                      added = added_ws1 (knowledgeBase s) new_facts
                  in (case store_added w1 now s added of
                        (kb, w2) \<Rightarrow>
                          (Inr \<lparr>addedFacts = added, knowledgeBase_resp = kb,
                                 translatedProlog = new_facts\<rparr>, w2))))"

definition upper :: "string \<Rightarrow> string" where
  \<comment> \<open>\<^verbatim>\<open>s.upper()\<close> on the letters \<^verbatim>\<open>a-z\<close>. No other character below code point 256
     has an upper case that contains R, U, L or E, which is all the test
     \<^verbatim>\<open>"RULE" in intent_raw.upper()\<close> looks for.\<close>
  "upper s = map (\<lambda>c. if is_lower_az c then char_of (of_char c - (32::nat)) else c) s"

definition no_valid_prolog :: error where
  "no_valid_prolog = ProviderError ''LLM failed to generate valid Prolog code.''"

definition assert_into_session_ws3 ::
  "prompt_manager_ws3 \<Rightarrow> 'l llm_provider \<Rightarrow> string \<Rightarrow> string \<Rightarrow> string \<Rightarrow> 'l world
     \<Rightarrow> (error + assert_response_ws3) \<times> 'l world" where
  "assert_into_session_ws3 pm gen now session_id text w =
     (case get_session w session_id of
        Inl e \<Rightarrow> (Inl e, w)
      | Inr s \<Rightarrow>
          let schema = get_kb_schema_ws3 (knowledgeBase s)
          in (case run_prompt_chain pm gen ''INTENT_CLASSIFIER'' [(''text'', KStr text)] w of
                (Inl e, w1) \<Rightarrow> (Inl e, w1)
              | (Inr intent_raw, w1) \<Rightarrow>
                  let intent = (if contains ''RULE'' (upper intent_raw) then ''RULE'' else ''FACT'');
                      prompt_name = (if intent = ''RULE'' then ''NL_TO_RULES'' else ''NL_TO_FACTS'')
                  in (case run_prompt_chain pm gen prompt_name
                             [(''text'', KStr text), (''schema'', KList schema)] w1 of
                        (Inl e, w2) \<Rightarrow> (Inl e, w2)
                      | (Inr llm_response, w2) \<Rightarrow>
                          let new_clauses = extract_prolog_ws3 llm_response
                          in if new_clauses = [] then (Inl no_valid_prolog, w2)
                             else let added = added_ws3 (knowledgeBase s) new_clauses
                                  in (case store_added w2 now s added of
                                        (kb, w3) \<Rightarrow>
                                          (Inr \<lparr>addedFacts = added, knowledgeBase_resp = kb,
                                                 translatedProlog = new_clauses, intent = intent\<rparr>,
                                           w3)))))"

section \<open>Session pipeline: query\<close>

record query_response =
  queryProlog :: string
  result :: pyval
  answer :: string
  debugInfo :: "(string \<times> pyval) list option"

type_synonym reason_provider = "string \<Rightarrow> string \<Rightarrow> error + pyval"
  \<comment> \<open>\<^verbatim>\<open>IReasonProvider.query(kb_str, query_str)\<close>; the service is built with
     \<^verbatim>\<open>PythologReasonProvider\<close>, that is \<open>query_ws1 eng\<close>, \<open>query_ws2 eng\<close> or \<open>query_ws3 eng\<close>.\<close>

definition result_for_llm_ws1 :: "pyval \<Rightarrow> pyval" where
  \<comment> \<open>\<^verbatim>\<open>result_for_llm = "Yes" if result else "No"\<close>\<close>
  "result_for_llm_ws1 r = (if truthy r then PStr ''Yes'' else PStr ''No'')"

definition result_for_llm_ws2 :: "pyval \<Rightarrow> pyval" where
  \<comment> \<open>\<^verbatim>\<open>result_for_llm = "true" if result is True else ("No" if result is False else result)\<close>\<close>
  "result_for_llm_ws2 r =
     (if r = PBool True then PStr ''true'' else if r = PBool False then PStr ''No'' else r)"

definition result_for_llm_ws3 :: "pyval \<Rightarrow> pyval" where
  \<comment> \<open>\<^verbatim>\<open>result_for_llm = "true" if result is True\<close>
     \<^verbatim>\<open>else ("No" if not result or result == ['No'] else result)\<close>\<close>
  "result_for_llm_ws3 r =
     (if r = PBool True then PStr ''true''
      else if \<not> truthy r \<or> r = PList [PStr ''No''] then PStr ''No''
      else r)"

definition run_query_ws1 ::
  "prompt_manager \<Rightarrow> 'l llm_provider \<Rightarrow> reason_provider \<Rightarrow> (pyval \<Rightarrow> string) \<Rightarrow> string \<Rightarrow> string
     \<Rightarrow> 'l world \<Rightarrow> (error + query_response) \<times> 'l world" where
  \<comment> \<open>\<open>dumps\<close> is \<^verbatim>\<open>json.dumps\<close>.\<close>
  "run_query_ws1 pm gen reasoner dumps session_id query w =
     (case get_session w session_id of
        Inl e \<Rightarrow> (Inl e, w)
      | Inr s \<Rightarrow>
          (case generate gen w (pm ''NL_TO_QUERY'' [(''query'', KStr query)]) of
             (Inl e, w1) \<Rightarrow> (Inl e, w1)
           | (Inr prolog_query_raw, w1) \<Rightarrow>
               let prolog_query = rstrip_dot (strip prolog_query_raw)
               in (case reasoner (knowledgeBase s) prolog_query of
                     Inl e \<Rightarrow> (Inl e, w1)
                   | Inr r \<Rightarrow>
                       (case generate gen w1
                               (pm ''RESULT_TO_NL''
                                  [(''query'', KStr prolog_query),
                                   (''result'', KStr (dumps (result_for_llm_ws1 r))),
                                   (''style'', KStr ''a clear and concise explanation'')]) of
                          (Inl e, w2) \<Rightarrow> (Inl e, w2)
                        | (Inr a, w2) \<Rightarrow>
                            (Inr \<lparr>queryProlog = prolog_query, result = r, answer = a,
                                   debugInfo = Some [(''generated_prolog_query'', PStr prolog_query),
                                                     (''raw_reasoner_result'', r)]\<rparr>, w2)))))"

definition run_query_ws2 ::
  "prompt_manager \<Rightarrow> 'l llm_provider \<Rightarrow> reason_provider \<Rightarrow> (pyval \<Rightarrow> string) \<Rightarrow> string \<Rightarrow> string
     \<Rightarrow> 'l world \<Rightarrow> (error + query_response) \<times> 'l world" where
  "run_query_ws2 pm gen reasoner dumps session_id query w =
     (case get_session w session_id of
        Inl e \<Rightarrow> (Inl e, w)
      | Inr s \<Rightarrow>
          let schema = get_kb_schema_ws2 (knowledgeBase s)
          in (case generate gen w (pm ''NL_TO_QUERY'' [(''query'', KStr query), (''schema'', KList schema)]) of
                (Inl e, w1) \<Rightarrow> (Inl e, w1)
              | (Inr prolog_query_raw, w1) \<Rightarrow>
                  let prolog_query = rstrip_dot (strip prolog_query_raw)
                  in (case reasoner (knowledgeBase s) prolog_query of
                        Inl e \<Rightarrow> (Inl e, w1)
                      | Inr r \<Rightarrow>
                          (case generate gen w1
                                  (pm ''RESULT_TO_NL''
                                     [(''query'', KStr prolog_query),
                                      (''result'', KStr (dumps (result_for_llm_ws2 r)))]) of
                             (Inl e, w2) \<Rightarrow> (Inl e, w2)
                           | (Inr a, w2) \<Rightarrow>
                               (Inr \<lparr>queryProlog = prolog_query, result = r, answer = a,
                                      debugInfo = Some [(''generated_prolog_query'', PStr prolog_query),
                                                        (''raw_reasoner_result'', r)]\<rparr>, w2)))))"

definition no_valid_query :: error where
  "no_valid_query = ProviderError ''LLM failed to generate a valid Prolog query.''"

definition run_query_ws3 ::
  "prompt_manager_ws3 \<Rightarrow> 'l llm_provider \<Rightarrow> reason_provider \<Rightarrow> (pyval \<Rightarrow> string) \<Rightarrow> string
     \<Rightarrow> string \<Rightarrow> 'l world \<Rightarrow> (error + query_response) \<times> 'l world" where
  "run_query_ws3 pm gen reasoner dumps session_id query w =
     (case get_session w session_id of
        Inl e \<Rightarrow> (Inl e, w)
      | Inr s \<Rightarrow>
          let schema = get_kb_schema_ws3 (knowledgeBase s)
          in (case run_prompt_chain pm gen ''NL_TO_QUERY''
                     [(''query'', KStr query), (''schema'', KList schema)] w of
                (Inl e, w1) \<Rightarrow> (Inl e, w1)
              | (Inr text, w1) \<Rightarrow>
                  let prolog_query = rstrip_dot text
                  in if prolog_query = [] then (Inl no_valid_query, w1)
                     else (case reasoner (knowledgeBase s) prolog_query of
                             Inl e \<Rightarrow> (Inl e, w1)
                           | Inr r \<Rightarrow>
                               (case run_prompt_chain pm gen ''RESULT_TO_NL''
                                       [(''query'', KStr prolog_query),
                                        (''result'', KStr (dumps (result_for_llm_ws3 r)))] w1 of
                                  (Inl e, w2) \<Rightarrow> (Inl e, w2)
                                | (Inr a, w2) \<Rightarrow>
                                    (Inr \<lparr>queryProlog = prolog_query, result = r, answer = a,
                                           debugInfo = None\<rparr>, w2)))))"

section \<open>The wording of the specification, for comparison\<close>

text \<open>
  Arity as the specification words it (section 4.1): the commas inside the outermost
  parenthesis group of the clause head, plus one, and 0 for an empty argument list. The
  outermost group is the text between the first \<^verbatim>\<open>(\<close> and the \<^verbatim>\<open>)\<close> that closes it.
\<close>

fun upto_close :: "nat \<Rightarrow> string \<Rightarrow> string" where
  \<comment> \<open>the text up to the parenthesis that closes the group, at nesting depth \<open>d\<close>\<close>
  "upto_close d [] = []"
| "upto_close d (c # cs) =
     (if c = CHR ''('' then c # upto_close (Suc d) cs
      else if c = CHR '')'' then (case d of 0 \<Rightarrow> [] | Suc d' \<Rightarrow> c # upto_close d' cs)
      else c # upto_close d cs)"

definition outer_group :: "string \<Rightarrow> string" where
  "outer_group head = upto_close 0 (drop 1 (dropWhile (\<lambda>c. c \<noteq> CHR ''('') head))"

definition spec_arity :: "string \<Rightarrow> nat" where
  "spec_arity head =
     (if outer_group head = [] then 0 else count_char CHR '','' (outer_group head) + 1)"

fun is_binding :: "pyval \<Rightarrow> bool" where
  \<comment> \<open>a variable-binding record of the engine: a dictionary\<close>
  "is_binding (PDict kvs) = True"
| "is_binding v = False"

text \<open>
  The chain executor as the specification words it (sections 4.4 and 6): a failure of
  the backend on one variant counts as that variant producing nothing, and the next
  variant is tried.
\<close>

fun try_prompts_spec ::
  "'l llm_provider \<Rightarrow> string list \<Rightarrow> 'l world \<Rightarrow> string option \<times> 'l world" where
  "try_prompts_spec gen [] w = (None, w)"
| "try_prompts_spec gen (prompt # rest) w =
     (case generate gen w prompt of
        (Inl e, w') \<Rightarrow> try_prompts_spec gen rest w'
      | (Inr llm_response, w') \<Rightarrow>
          if strip llm_response \<noteq> [] then (Some (strip llm_response), w')
          else try_prompts_spec gen rest w')"

definition run_prompt_chain_spec ::
  "prompt_manager_ws3 \<Rightarrow> 'l llm_provider \<Rightarrow> string \<Rightarrow> kwargs \<Rightarrow> 'l world
     \<Rightarrow> (error + string) \<times> 'l world" where
  "run_prompt_chain_spec pm gen template_name kw w =
     (case try_prompts_spec gen (pm template_name kw) w of
        (Some text, w') \<Rightarrow> (Inr text, w')
      | (None, w') \<Rightarrow> (Inl (all_variants_failed template_name (length (pm template_name kw))), w'))"

fun blank_answers :: "'l llm_provider \<Rightarrow> string list \<Rightarrow> 'l world \<Rightarrow> 'l world option" where
  \<comment> \<open>the state after the prompts were sent in this order, when the backend answered
     each of them with a blank text; \<open>None\<close> when it did not\<close>
  "blank_answers gen [] w = Some w"
| "blank_answers gen (prompt # rest) w =
     (case generate gen w prompt of
        (Inl e, w') \<Rightarrow> None
      | (Inr llm_response, w') \<Rightarrow>
          if strip llm_response = [] then blank_answers gen rest w' else None)"

section \<open>Stand-ins for the collaborators, used at concrete inputs\<close>

definition scripted :: "(error + string) list llm_provider" where
  \<comment> \<open>a backend that plays back a list of answers, one per call, and once the list is
     used up answers with the prompt it was sent\<close>
  "scripted answers prompt =
     (case answers of [] \<Rightarrow> (Inr prompt, []) | a # rest \<Rightarrow> (a, rest))"

definition one_variant :: prompt_manager_ws3 where
  \<comment> \<open>one template per task: the name of the task\<close>
  "one_variant template_name kw = [template_name]"

definition two_variants :: prompt_manager_ws3 where
  "two_variants template_name kw = [template_name @ '' (1)'', template_name @ '' (2)'']"

definition task_name :: prompt_manager where
  "task_name template_name kw = template_name"

definition show_result :: prompt_manager_ws3 where
  \<comment> \<open>one template per task, which shows the \<^verbatim>\<open>result\<close> parameter of the call\<close>
  "show_result template_name kw =
     [template_name @ '': '' @ (case map_of kw ''result'' of Some (KStr r) \<Rightarrow> r | _ \<Rightarrow> [])]"

definition show_result1 :: prompt_manager where
  "show_result1 template_name kw =
     template_name @ '': '' @ (case map_of kw ''result'' of Some (KStr r) \<Rightarrow> r | _ \<Rightarrow> [])"

fun plain_dumps :: "pyval \<Rightarrow> string" where
  \<comment> \<open>a stand-in for \<^verbatim>\<open>json.dumps\<close> that tells the shaped values apart\<close>
  "plain_dumps (PStr s) = [CHR 0x22] @ s @ [CHR 0x22]"
| "plain_dumps (PList []) = ''[]''"
| "plain_dumps (PBool b) = (if b then ''true'' else ''false'')"
| "plain_dumps PNone = ''null''"
| "plain_dumps v = ''[...]''"

definition toy_engine :: engine where
  \<comment> \<open>an engine that rejects a knowledge base with a line that lacks its final \<^verbatim>\<open>.\<close>,
     and answers a goal after one millisecond: true when the goal is a line of the
     knowledge base, nothing otherwise\<close>
  "toy_engine =
     \<lparr>kb_load = (\<lambda>lines. if list_all (\<lambda>line. endswith line ''.'') lines then None
                           else Some ''syntax error''),
      parse_expr = (\<lambda>q. None),
      kb_query = (\<lambda>lines q. After 1 (Inr (if q @ ''.'' \<in> set lines then PBool True else PNone)))\<rparr>"

definition slow_engine :: engine where
  \<comment> \<open>an engine that needs a minute for every goal\<close>
  "slow_engine =
     \<lparr>kb_load = (\<lambda>lines. None), parse_expr = (\<lambda>q. None),
      kb_query = (\<lambda>lines q. After 60000 (Inr (PList [])))\<rparr>"

definition session0 :: "string \<Rightarrow> session" where
  "session0 kb = \<lparr>sessionId = ''s1'', knowledgeBase = kb, createdAt = ''t0'', modifiedAt = ''t0''\<rparr>"

definition world0 :: "string \<Rightarrow> 'l \<Rightarrow> 'l world" where
  \<comment> \<open>one stored session, \<^verbatim>\<open>s1\<close>, with the given knowledge base text\<close>
  "world0 kb l = \<lparr>files = [''s1'' \<mapsto> session0 kb], writes = 0, llm = l\<rparr>"

lemma rstrip_decomp: "\<exists>ws. s = rstrip s @ ws \<and> (\<forall>c\<in>set ws. isspace c)"
proof -
  have "rev s = takeWhile isspace (rev s) @ dropWhile isspace (rev s)" by simp
  then have "s = rev (dropWhile isspace (rev s)) @ rev (takeWhile isspace (rev s))"
    by (metis rev_append rev_rev_ident)
  moreover have "\<forall>c\<in>set (rev (takeWhile isspace (rev s))). isspace c"
    by (auto dest: set_takeWhileD)
  ultimately show ?thesis unfolding rstrip_def by blast
qed

lemma rstrip_last: "rstrip s \<noteq> [] \<Longrightarrow> \<not> isspace (last (rstrip s))"
  unfolding rstrip_def by (metis hd_dropWhile last_rev rev_is_Nil_conv)

lemma rstrip_id: "s \<noteq> [] \<Longrightarrow> \<not> isspace (last s) \<Longrightarrow> rstrip s = s"
  unfolding rstrip_def by (cases s rule: rev_cases) auto

lemma rstrip_Nil [simp]: "rstrip [] = []"
  by (simp add: rstrip_def)

lemma rstrip_append_keep: "t \<noteq> [] \<Longrightarrow> \<not> isspace (last t) \<Longrightarrow> rstrip (s @ t) = s @ t"
  by (rule rstrip_id) auto

lemma lstrip_hd: "lstrip s \<noteq> [] \<Longrightarrow> \<not> isspace (hd (lstrip s))"
  unfolding lstrip_def by (rule hd_dropWhile)

lemma lstrip_id: "s \<noteq> [] \<Longrightarrow> \<not> isspace (hd s) \<Longrightarrow> lstrip s = s"
  unfolding lstrip_def by (cases s) auto


lemma rstrip_hd: "rstrip s \<noteq> [] \<Longrightarrow> hd (rstrip s) = hd s"
  using rstrip_decomp [of s] by (metis hd_append2)

lemma rstrip_nonempty: "s \<noteq> [] \<Longrightarrow> \<not> isspace (hd s) \<Longrightarrow> rstrip s \<noteq> []"
  using rstrip_decomp [of s] by (metis append_Nil hd_in_set)

lemma strip_trimmed: "strip s \<noteq> [] \<Longrightarrow> trimmed (strip s)"
  unfolding strip_def trimmed_def
  by (metis lstrip_hd rstrip_Nil rstrip_hd rstrip_last)

lemma strip_id: "trimmed s \<Longrightarrow> strip s = s"
  unfolding strip_def trimmed_def by (simp add: lstrip_id rstrip_id)

lemma trimmed_append_dot: "trimmed s \<Longrightarrow> trimmed (s @ ''.'')"
  unfolding trimmed_def by (simp add: isspace_def)

lemma endswith_dot_iff: "endswith s ''.'' \<longleftrightarrow> s \<noteq> [] \<and> last s = CHR ''.''"
  unfolding endswith_def by (cases s rule: rev_cases) auto

lemma endswith_colon_iff: "endswith s '':'' \<longleftrightarrow> s \<noteq> [] \<and> last s = CHR '':''"
  unfolding endswith_def by (cases s rule: rev_cases) auto

lemma startswith_percent_iff: "startswith s ''%'' \<longleftrightarrow> s \<noteq> [] \<and> hd s = CHR ''%''"
  unfolding startswith_def by (cases s) auto

lemma kept_lines_trimmed: "l \<in> set (kept_lines text) \<Longrightarrow> trimmed l \<and> hd l \<noteq> CHR ''%''"
  unfolding kept_lines_def by (auto simp: strip_trimmed startswith_percent_iff)

lemma extract_prolog_ws1_elem:
  assumes "c \<in> set (extract_prolog_ws1 text)"
  shows "endswith c ''.''" and "trimmed c" and "hd c \<noteq> CHR ''%''"
proof -
  from assms obtain l where l: "l \<in> set (kept_lines text)"
    and c: "c = (if endswith l ''.'' then l else l @ ''.'')"
    by (auto simp: extract_prolog_ws1_def)
  from kept_lines_trimmed [OF l] have t: "trimmed l" and h: "hd l \<noteq> CHR ''%''" by simp_all
  from c show "endswith c ''.''" by (auto simp: endswith_dot_iff)
  from c t show "trimmed c" by (auto simp: trimmed_append_dot)
  from c t h show "hd c \<noteq> CHR ''%''" by (auto simp: trimmed_def)
qed

lemma extract_prolog_ws2_elem:
  assumes "c \<in> set (extract_prolog_ws2 text)"
  shows "endswith c ''.'' \<or> endswith c '':''" and "trimmed c" and "hd c \<noteq> CHR ''%''"
proof -
  from assms obtain l where l: "l \<in> set (kept_lines text)"
    and c: "c = (if search_colon_dot_end l then l else l @ ''.'')"
    by (auto simp: extract_prolog_ws2_def)
  from kept_lines_trimmed [OF l] have t: "trimmed l" and h: "hd l \<noteq> CHR ''%''" by simp_all
  have nl: "\<not> endswith l [CHR ''.'', LF]" "\<not> endswith l [CHR '':'', LF]"
    using t unfolding trimmed_def endswith_def
    by (cases l rule: rev_cases; auto simp: isspace_def)+
  from c nl show "endswith c ''.'' \<or> endswith c '':''"
    by (auto simp: endswith_dot_iff search_colon_dot_end_def)
  from c t show "trimmed c" by (auto simp: trimmed_append_dot)
  from c t h show "hd c \<noteq> CHR ''%''" by (auto simp: trimmed_def)
qed



lemma lower_not_space: "is_lower_az c \<Longrightarrow> \<not> isspace c"
  by (auto simp: is_lower_az_def isspace_def)

lemma paren_not_ident: "\<not> ident_char (CHR ''('')"
  by (simp add: ident_char_def)


lemma match_name_paren_name: "match_name_paren s = Some (name, r) \<Longrightarrow> valid_name name"
  by (auto simp: match_name_paren_def valid_name_def split: list.splits if_splits dest: set_takeWhileD)

lemma match_name_paren_intro:
  assumes "valid_name name"
  shows "match_name_paren (name @ ''('' @ x) = Some (name, x)"
proof -
  from assms obtain c cs where n: "name = c # cs" and c: "is_lower_az c"
    and cs: "\<forall>x\<in>set cs. ident_char x"
    by (cases name) (auto simp: valid_name_def)
  from cs have "dropWhile ident_char (cs @ ''('' @ x) = ''('' @ x"
    and "takeWhile ident_char (cs @ ''('' @ x) = cs"
    by (simp_all add: dropWhile_append takeWhile_append paren_not_ident)
  with n c show ?thesis by (simp add: match_name_paren_def)
qed

lemma match_name_paren_iff:
  "match_name_paren s = Some (name, r) \<longleftrightarrow> valid_name name \<and> s = name @ ''('' @ r"
  using match_name_paren_intro match_name_paren_name match_name_paren_split(1) by blast

lemma rstrip_keep_prefix:
  assumes "\<not> isspace c"
  shows "rstrip (xs @ [c] @ ys) = xs @ [c] @ rstrip ys"
proof (cases "\<forall>x\<in>set ys. isspace x")
  case True
  then have "dropWhile isspace (rev ys) = []" by simp
  with True assms show ?thesis by (simp add: rstrip_def dropWhile_append)
next
  case False
  then show ?thesis by (auto simp: rstrip_def dropWhile_append)
qed

lemma strip_shape:
  assumes "match_name_paren m = Some (name, r)"
  shows "strip m = name @ ''('' @ rstrip r"
proof -
  from assms have v: "valid_name name" and m: "m = name @ ''('' @ r"
    by (simp_all add: match_name_paren_iff)
  from v have "\<not> isspace (hd m)" using m by (cases name) (auto simp: valid_name_def lower_not_space)
  moreover from m v have "m \<noteq> []" by simp
  ultimately have "lstrip m = m" by (simp add: lstrip_id)
  moreover have "rstrip (name @ [CHR ''(''] @ r) = name @ [CHR ''(''] @ rstrip r"
    by (rule rstrip_keep_prefix) (simp add: isspace_def)
  ultimately show ?thesis using m by (simp add: strip_def)
qed

lemma match_prolog_shape:
  assumes "match_prolog s = Some (m, rest)"
  shows "\<exists>name r. match_name_paren m = Some (name, r)"
proof -
  from assms obtain name r2 r4 dot r5 ws r6 body where
    np: "match_name_paren s = Some (name, r2)"
    and m: "m = name @ ''('' @ takeWhile (\<lambda>x. x \<noteq> CHR '')'') r2 @ '')'' @ dot @ ws @ body"
    by (rule match_prolog_parts)
  from match_name_paren_name [OF np] m show ?thesis
    using match_name_paren_intro by blast
qed

lemma findall_prolog_elem:
  assumes "m \<in> set (findall_prolog bol s)"
  shows "\<exists>pre post. s = pre @ m @ post \<and> (if pre = [] then bol else last pre = LF)
           \<and> match_prolog (m @ post) = Some (m, post)"
  using assms
proof (induction bol s rule: findall_prolog.induct)
  case (1 bol)
  then show ?case by simp
next
  case (2 bol c cs)
  show ?case
  proof (cases "bol \<and> match_prolog (c # cs) \<noteq> None")
    case True
    then obtain m' rest where mp: "match_prolog (c # cs) = Some (m', rest)" by auto
    from match_prolog_split [OF mp] have s: "c # cs = m' @ rest" and ne: "m' \<noteq> []" by simp_all
    from "2.prems" True mp have "m = m' \<or> m \<in> set (findall_prolog (last m' = LF) rest)" by simp
    then show ?thesis
    proof
      assume "m = m'"
      with s mp True have "c # cs = [] @ m @ rest \<and> (if ([]::string) = [] then bol else last ([]::string) = LF)
         \<and> match_prolog (m @ rest) = Some (m, rest)" by simp
      then show ?thesis by blast
    next
      assume "m \<in> set (findall_prolog (last m' = LF) rest)"
      with "2.IH"(2) [OF _ mp refl] True obtain pre post where
        r: "rest = pre @ m @ post" and b: "if pre = [] then last m' = LF else last pre = LF"
        and q: "match_prolog (m @ post) = Some (m, post)" by blast
      from s r have "c # cs = (m' @ pre) @ m @ post" by simp
      moreover from b ne have "if m' @ pre = [] then bol else last (m' @ pre) = LF"
        by (auto split: if_splits)
      ultimately show ?thesis using q by blast
    qed
  next
    case False
    with "2.prems" have mem: "m \<in> set (findall_prolog (c = LF) cs)" by (auto split: option.splits)
    have "\<exists>pre post. cs = pre @ m @ post \<and> (if pre = [] then c = LF else last pre = LF)
           \<and> match_prolog (m @ post) = Some (m, post)"
    proof (cases bol)
      case True
      with False have "match_prolog (c # cs) = None" by (cases "match_prolog (c # cs)") auto
      from "2.IH"(1) [OF True this mem] show ?thesis .
    next
      case False
      from "2.IH"(3) [OF False mem] show ?thesis .
    qed
    then obtain pre post where r: "cs = pre @ m @ post"
      and b: "if pre = [] then c = LF else last pre = LF"
      and q: "match_prolog (m @ post) = Some (m, post)" by blast
    from r have "c # cs = (c # pre) @ m @ post" by simp
    moreover from b have "if c # pre = [] then bol else last (c # pre) = LF"
      by (auto split: if_splits)
    ultimately show ?thesis using q by blast
  qed
qed

lemma extract_prolog_ws3_elem:
  assumes "c \<in> set (extract_prolog_ws3 text)"
  shows "\<exists>pre m post name r. text = pre @ m @ post \<and> (pre = [] \<or> last pre = LF)
           \<and> match_name_paren m = Some (name, r)
           \<and> c = (if endswith (strip m) ''.'' then strip m else strip m @ ''.'')"
proof -
  from assms obtain m where m: "m \<in> set (findall_prolog True text)"
    and c: "c = (if endswith (strip m) ''.'' then strip m else strip m @ ''.'')"
    by (auto simp: extract_prolog_ws3_def)
  from findall_prolog_elem [OF m] obtain pre post where
    t: "text = pre @ m @ post" and b: "pre = [] \<or> last pre = LF"
    and q: "match_prolog (m @ post) = Some (m, post)" by (auto split: if_splits)
  from match_prolog_shape [OF q] obtain name r where "match_name_paren m = Some (name, r)" by blast
  with t b c show ?thesis by blast
qed

lemma extract_prolog_ws3_shape:
  assumes "c \<in> set (extract_prolog_ws3 text)"
  shows "\<exists>name r. match_name_paren c = Some (name, r)" and "endswith c ''.''" and "trimmed c"
proof -
  from extract_prolog_ws3_elem [OF assms] obtain m name r where
    np: "match_name_paren m = Some (name, r)"
    and c: "c = (if endswith (strip m) ''.'' then strip m else strip m @ ''.'')" by blast
  from np have v: "valid_name name" by (rule match_name_paren_name)
  have sm: "strip m = name @ ''('' @ rstrip r" by (rule strip_shape [OF np])
  then have ne: "strip m \<noteq> []" by simp
  from c sm have "c = name @ ''('' @ rstrip r \<or> c = name @ ''('' @ (rstrip r @ ''.'')" by auto
  with v show "\<exists>name r. match_name_paren c = Some (name, r)"
    using match_name_paren_intro by metis
  from c show "endswith c ''.''" by (auto simp: endswith_dot_iff)
  from strip_trimmed [OF ne] c show "trimmed c" by (auto simp: trimmed_append_dot)
qed

subsection \<open>What a call of the backend and of the chain leaves alone\<close>

lemma generate_frame:
  "generate gen w prompt = (a, w') \<Longrightarrow> files w' = files w \<and> writes w' = writes w"
  by (auto simp: generate_def split: prod.splits)

lemma try_prompts_frame:
  "try_prompts gen ps w = (a, w') \<Longrightarrow> files w' = files w \<and> writes w' = writes w"
proof (induction ps arbitrary: w)
  case Nil
  then show ?case by simp
next
  case (Cons p ps)
  obtain b w1 where g: "generate gen w p = (b, w1)" by (cases "generate gen w p")
  from generate_frame [OF g] have f: "files w1 = files w \<and> writes w1 = writes w" .
  show ?case
  proof (cases b)
    case (Inl e)
    with Cons.prems g f show ?thesis by simp
  next
    case (Inr r)
    show ?thesis
    proof (cases "r \<noteq> [] \<and> strip r \<noteq> []")
      case True
      with Cons.prems g Inr f show ?thesis by auto
    next
      case False
      with Cons.prems g Inr have "try_prompts gen ps w1 = (a, w')" by auto
      from Cons.IH [OF this] f show ?thesis by simp
    qed
  qed
qed

lemma run_prompt_chain_frame:
  assumes "run_prompt_chain pm gen task kw w = (a, w')"
  shows "files w' = files w \<and> writes w' = writes w"
proof (cases "pm task kw = []")
  case True
  with assms show ?thesis by (simp add: run_prompt_chain_def)
next
  case False
  obtain b w1 where t: "try_prompts gen (pm task kw) w = (b, w1)"
    by (cases "try_prompts gen (pm task kw) w")
  with assms False have "w' = w1"
    by (auto simp: run_prompt_chain_def split: sum.splits option.splits)
  with try_prompts_frame [OF t] show ?thesis by simp
qed

lemma store_added_Nil: "store_added w now s [] = (knowledgeBase s, w)"
  by (simp add: store_added_def)

lemma store_added_Cons:
  "added \<noteq> [] \<Longrightarrow> store_added w now s added
     = (appended_kb (knowledgeBase s) added,
        save_session w now (s\<lparr>knowledgeBase := appended_kb (knowledgeBase s) added\<rparr>))"
  by (simp add: store_added_def)

subsection \<open>The shape of a successful assert call\<close>

lemma assert_ws1_success:
  assumes "assert_into_session_ws1 pm gen now session_id text w = (Inr resp, w')"
  obtains s t w1 where "files w session_id = Some s"
    and "generate gen w (pm ''NL_TO_RULES'' [(''text'', KStr text)]) = (Inr t, w1)"
    and "addedFacts resp = added_ws1 (knowledgeBase s) (extract_prolog_ws1 t)"
    and "store_added w1 now s (addedFacts resp) = (knowledgeBase_resp resp, w')"
  using assms unfolding assert_into_session_ws1_def get_session_def
  by (auto simp: Let_def split: option.splits sum.splits prod.splits)

lemma assert_ws2_success:
  assumes "assert_into_session_ws2 pm gen now session_id text w = (Inr resp, w')"
  obtains s t w1 where "files w session_id = Some s"
    and "generate gen w (pm ''NL_TO_RULES''
           [(''text'', KStr text), (''schema'', KList (get_kb_schema_ws2 (knowledgeBase s)))])
         = (Inr t, w1)"
    and "translatedProlog resp = extract_prolog_ws2 t"
    and "addedFacts resp = added_ws1 (knowledgeBase s) (translatedProlog resp)"
    and "store_added w1 now s (addedFacts resp) = (knowledgeBase_resp resp, w')"
  using assms unfolding assert_into_session_ws2_def get_session_def
  by (auto simp: Let_def split: option.splits sum.splits prod.splits)

lemma assert_ws3_success:
  assumes "assert_into_session_ws3 pm gen now session_id text w = (Inr resp, w')"
  obtains s i w1 t w2 where "files w session_id = Some s"
    and "run_prompt_chain pm gen ''INTENT_CLASSIFIER'' [(''text'', KStr text)] w = (Inr i, w1)"
    and "intent resp = (if contains ''RULE'' (upper i) then ''RULE'' else ''FACT'')"
    and "run_prompt_chain pm gen (if intent resp = ''RULE'' then ''NL_TO_RULES'' else ''NL_TO_FACTS'')
           [(''text'', KStr text), (''schema'', KList (get_kb_schema_ws3 (knowledgeBase s)))] w1
         = (Inr t, w2)"
    and "translatedProlog resp = extract_prolog_ws3 t" and "translatedProlog resp \<noteq> []"
    and "addedFacts resp = added_ws3 (knowledgeBase s) (translatedProlog resp)"
    and "store_added w2 now s (addedFacts resp) = (knowledgeBase_resp resp, w')"
  using assms unfolding assert_into_session_ws3_def get_session_def
  by (auto simp: Let_def split: option.splits sum.splits prod.splits if_splits)

lemma assert_ws3_failure:
  assumes "assert_into_session_ws3 pm gen now session_id text w = (Inl e, w')"
  shows "files w' = files w \<and> writes w' = writes w"
proof (cases "files w session_id")
  case None
  with assms show ?thesis by (simp add: assert_into_session_ws3_def get_session_def)
next
  case (Some s)
  obtain a w1 where c1: "run_prompt_chain pm gen ''INTENT_CLASSIFIER'' [(''text'', KStr text)] w = (a, w1)"
    by (cases "run_prompt_chain pm gen ''INTENT_CLASSIFIER'' [(''text'', KStr text)] w")
  note f1 = run_prompt_chain_frame [OF c1]
  show ?thesis
  proof (cases a)
    case (Inl e1)
    with assms Some c1 f1 show ?thesis by (simp add: assert_into_session_ws3_def get_session_def)
  next
    case (Inr i)
    define name where "name = (if contains ''RULE'' (upper i) then ''NL_TO_RULES'' else ''NL_TO_FACTS'')"
    obtain b w2 where c2: "run_prompt_chain pm gen name
        [(''text'', KStr text), (''schema'', KList (get_kb_schema_ws3 (knowledgeBase s)))] w1 = (b, w2)"
      by (cases "run_prompt_chain pm gen name
        [(''text'', KStr text), (''schema'', KList (get_kb_schema_ws3 (knowledgeBase s)))] w1")
    note f2 = run_prompt_chain_frame [OF c2]
    from assms Some c1 Inr c2 have "w' = w2"
      by (auto simp: assert_into_session_ws3_def get_session_def Let_def name_def
          split: sum.splits prod.splits if_splits)
    with f1 f2 show ?thesis by simp
  qed
qed

subsection \<open>Trimming the concatenation of the old text and the new clauses\<close>

lemma lstrip_Nil_iff: "lstrip s = [] \<longleftrightarrow> (\<forall>c\<in>set s. isspace c)"
  by (simp add: lstrip_def dropWhile_eq_Nil_conv)

lemma strip_Nil_iff: "strip s = [] \<longleftrightarrow> (\<forall>c\<in>set s. isspace c)"
proof (cases "lstrip s = []")
  case True
  then have "strip s = []" by (simp add: strip_def)
  with True show ?thesis by (simp add: lstrip_Nil_iff)
next
  case False
  then have "rstrip (lstrip s) \<noteq> []" by (simp add: rstrip_nonempty lstrip_hd)
  with False show ?thesis by (simp add: strip_def lstrip_Nil_iff)
qed

lemma strip_eq_lstrip:
  assumes "s \<noteq> []" and "\<not> isspace (last s)"
  shows "strip s = lstrip s"
proof -
  from assms have ne: "dropWhile isspace s \<noteq> []"
    by (metis dropWhile_eq_Nil_conv last_in_set)
  have "last (dropWhile isspace s) = last s"
    by (metis ne append_take_drop_id last_appendR takeWhile_dropWhile_id)
  with assms ne show ?thesis by (simp add: strip_def lstrip_def rstrip_id)
qed

lemma lstrip_append_trimmed:
  assumes "trimmed t"
  shows "lstrip (k @ [LF] @ t) = (if strip k = [] then t else lstrip k @ [LF] @ t)"
proof (cases "\<forall>c\<in>set k. isspace c")
  case True
  from assms have "dropWhile isspace t = t" by (cases t) (auto simp: trimmed_def)
  with True show ?thesis
    by (simp add: lstrip_def dropWhile_append strip_Nil_iff isspace_def)
next
  case False
  then show ?thesis by (auto simp: lstrip_def dropWhile_append strip_Nil_iff)
qed

lemma trimmed_join:
  assumes "xs \<noteq> []" and "\<forall>c\<in>set xs. trimmed c"
  shows "trimmed (join [LF] xs)"
  using assms
proof (induction xs rule: induct_list012)
  case 1
  then show ?case by simp
next
  case (2 x)
  then show ?case by simp
next
  case (3 x y ys)
  then have x: "trimmed x" and r: "trimmed (join [LF] (y # ys))" by simp_all
  then show ?case by (auto simp: trimmed_def)
qed

lemma appended_kb_trimmed:
  assumes "added \<noteq> []" and "\<forall>c\<in>set added. trimmed c"
  shows "appended_kb kb added
         = (if strip kb = [] then join [LF] added else lstrip kb @ [LF] @ join [LF] added)"
proof -
  from trimmed_join [OF assms] have t: "trimmed (join [LF] added)" .
  then have "kb @ [LF] @ join [LF] added \<noteq> []"
    and "\<not> isspace (last (kb @ [LF] @ join [LF] added))"
    by (simp_all add: trimmed_def)
  then have "strip (kb @ [LF] @ join [LF] added) = lstrip (kb @ [LF] @ join [LF] added)"
    by (rule strip_eq_lstrip)
  with lstrip_append_trimmed [OF t] show ?thesis by (simp add: appended_kb_def)
qed

lemma added_ws1_subset: "set (added_ws1 kb clauses) \<subseteq> set clauses"
  by (auto simp: added_ws1_def)

lemma added_ws3_subset: "set (added_ws3 kb clauses) \<subseteq> set clauses"
  by (auto simp: added_ws3_def)

lemma extract_prolog_ws1_trimmed: "\<forall>c\<in>set (extract_prolog_ws1 t). trimmed c"
  by (simp add: extract_prolog_ws1_elem)

lemma extract_prolog_ws2_trimmed: "\<forall>c\<in>set (extract_prolog_ws2 t). trimmed c"
  by (simp add: extract_prolog_ws2_elem)

lemma extract_prolog_ws3_trimmed: "\<forall>c\<in>set (extract_prolog_ws3 t). trimmed c"
  by (simp add: extract_prolog_ws3_shape)

lemma store_added_result:
  assumes "store_added w now s added = (kb, w')" and "added \<noteq> []"
  shows "kb = appended_kb (knowledgeBase s) added"
    and "files w' (sessionId s) = Some (s\<lparr>knowledgeBase := kb, modifiedAt := now\<rparr>)"
    and "writes w' = Suc (writes w)"
  using assms by (auto simp: store_added_def save_session_def)

subsection \<open>The lines of a text that ends with appended clauses\<close>

lemma startswith_LF_Cons [simp]: "startswith (c # cs) [LF] \<longleftrightarrow> c = LF"
  by (simp add: startswith_def)

lemma startswith_LF_Nil [simp]: "\<not> startswith [] [LF]"
  by (simp add: startswith_def)

lemma LF_linebreak [simp]: "is_linebreak LF" "is_linebreak CR"
  by (simp_all add: is_linebreak_def)

lemma splitlines_acc_append_LF:
  "splitlines_acc cur (a @ LF # b) = splitlines_acc cur (a @ [LF]) @ splitlines_acc [] b"
proof (induction a arbitrary: cur rule: induct_list012)
  case 1
  show ?case by simp
next
  case (2 x)
  show ?case by simp
next
  case (3 x y zs)
  show ?case
  proof (cases "x = CR \<and> y = LF")
    case True
    with "3.IH"(1) [of "[]"] show ?thesis by simp
  next
    case False
    with "3.IH"(2) [of "[]"] "3.IH"(2) [of "cur @ [x]"] show ?thesis by auto
  qed
qed

lemma splitlines_acc_prefix:
  "prefix (splitlines_acc cur a) (splitlines_acc cur (a @ [LF]))"
proof (induction a arbitrary: cur rule: induct_list012)
  case 1
  show ?case by simp
next
  case (2 x)
  show ?case by simp
next
  case (3 x y zs)
  show ?case
  proof (cases "x = CR \<and> y = LF")
    case True
    with "3.IH"(1) [of "[]"] show ?thesis by simp
  next
    case False
    with "3.IH"(2) [of "[]"] "3.IH"(2) [of "cur @ [x]"] show ?thesis by auto
  qed
qed

lemma splitlines_append_LF:
  "splitlines (a @ LF # b) = splitlines (a @ [LF]) @ splitlines b"
  using splitlines_acc_append_LF [of "[]" a b] by (simp add: splitlines_def)

lemma splitlines_prefix: "prefix (splitlines a) (splitlines (a @ LF # b))"
proof -
  have "prefix (splitlines a) (splitlines (a @ [LF]))"
    by (simp add: splitlines_def splitlines_acc_prefix)
  then have "prefix (splitlines a) (splitlines (a @ [LF]) @ splitlines b)"
    by (rule prefix_prefix)
  with splitlines_append_LF [of a b] show ?thesis by simp
qed

lemma splitlines_acc_no_break:
  "\<forall>x\<in>set c. \<not> is_linebreak x \<Longrightarrow> splitlines_acc cur (c @ rest) = splitlines_acc (cur @ c) rest"
proof (induction c arbitrary: cur)
  case Nil
  show ?case by simp
next
  case (Cons x c)
  then have "\<not> is_linebreak x" and "x \<noteq> CR" by auto
  with Cons.IH [of "cur @ [x]"] Cons.prems show ?case by simp
qed

lemma splitlines_join:
  assumes "\<forall>c\<in>set cs. c \<noteq> [] \<and> (\<forall>x\<in>set c. \<not> is_linebreak x)"
  shows "splitlines (join [LF] cs) = cs"
  using assms
proof (induction cs rule: induct_list012)
  case 1
  show ?case by (simp add: splitlines_def)
next
  case (2 x)
  then have "splitlines_acc [] (x @ []) = splitlines_acc ([] @ x) []"
    by (intro splitlines_acc_no_break) simp
  with 2 show ?case by (simp add: splitlines_def)
next
  case (3 x y zs)
  then have "splitlines_acc [] (x @ LF # join [LF] (y # zs))
             = splitlines_acc ([] @ x) (LF # join [LF] (y # zs))"
    by (intro splitlines_acc_no_break) simp
  with 3 show ?case by (simp add: splitlines_def)
qed

subsection \<open>Deduplication against the lines of the text\<close>

lemma lstrip_fixed: "lstrip kb = kb \<Longrightarrow> strip kb = [] \<Longrightarrow> kb = []"
  by (metis lstrip_Nil_iff strip_Nil_iff)

lemma appended_lines:
  assumes "lstrip kb = kb" and "added \<noteq> []" and "\<forall>c\<in>set added. trimmed c"
  shows "prefix (splitlines kb) (splitlines (appended_kb kb added))"
    and "\<forall>c\<in>set added. unbroken c \<Longrightarrow> set added \<subseteq> set (splitlines (appended_kb kb added))"
proof -
  note a = appended_kb_trimmed [OF assms(2,3), of kb]
  show "prefix (splitlines kb) (splitlines (appended_kb kb added))"
  proof (cases "strip kb = []")
    case True
    with lstrip_fixed [OF assms(1)] show ?thesis by (simp add: splitlines_def)
  next
    case False
    with a assms(1) show ?thesis by (simp add: splitlines_prefix)
  qed
  assume u: "\<forall>c\<in>set added. unbroken c"
  with assms(3) have "splitlines (join [LF] added) = added"
    by (intro splitlines_join) (auto simp: unbroken_def trimmed_def)
  with a assms(1) splitlines_append_LF [of kb "join [LF] added"]
  show "set added \<subseteq> set (splitlines (appended_kb kb added))"
    by (cases "strip kb = []") auto
qed

lemma added_ws1_again:
  assumes "lstrip kb = kb" and "\<forall>c\<in>set clauses. trimmed c \<and> unbroken c"
  shows "added_ws1 (if added_ws1 kb clauses \<noteq> [] then appended_kb kb (added_ws1 kb clauses) else kb)
           clauses = []"
proof (cases "added_ws1 kb clauses = []")
  case True
  then show ?thesis by simp
next
  case False
  let ?added = "added_ws1 kb clauses"
  from assms(2) added_ws1_subset [of kb clauses]
  have t: "\<forall>c\<in>set ?added. trimmed c" and u: "\<forall>c\<in>set ?added. unbroken c" by auto
  from appended_lines [OF assms(1) False t] u
  have p: "prefix (splitlines kb) (splitlines (appended_kb kb ?added))"
    and q: "set ?added \<subseteq> set (splitlines (appended_kb kb ?added))" by simp_all
  have "c \<in> set (splitlines (appended_kb kb ?added))" if "c \<in> set clauses" for c
  proof (cases "c \<in> set ?added")
    case True
    with q show ?thesis by auto
  next
    case False
    with that have "c \<in> set (splitlines kb)" by (simp add: added_ws1_def)
    with p show ?thesis by (auto dest: set_mono_prefix)
  qed
  with False show ?thesis by (simp add: added_ws1_def filter_empty_conv)
qed

lemma added_ws3_again:
  assumes "lstrip kb = kb" and "\<forall>c\<in>set clauses. trimmed c \<and> unbroken c"
  shows "added_ws3 (if added_ws3 kb clauses \<noteq> [] then appended_kb kb (added_ws3 kb clauses) else kb)
           clauses = []"
proof (cases "added_ws3 kb clauses = []")
  case True
  then show ?thesis by simp
next
  case False
  let ?added = "added_ws3 kb clauses"
  from assms(2) added_ws3_subset [of kb clauses]
  have t: "\<forall>c\<in>set ?added. trimmed c" and u: "\<forall>c\<in>set ?added. unbroken c" by auto
  from appended_lines [OF assms(1) False t] u
  have p: "prefix (splitlines kb) (splitlines (appended_kb kb ?added))"
    and q: "set ?added \<subseteq> set (splitlines (appended_kb kb ?added))" by simp_all
  have "c \<in> set (map strip (splitlines (appended_kb kb ?added)))" if c: "c \<in> set clauses" for c
  proof (cases "c \<in> set ?added")
    case True
    with q have "c \<in> set (splitlines (appended_kb kb ?added))" by auto
    moreover from c assms(2) have "strip c = c" by (simp add: strip_id)
    ultimately show ?thesis by force
  next
    case False
    with that have "c \<in> set (map strip (splitlines kb))" by (simp add: added_ws3_def)
    with p show ?thesis by (auto dest: set_mono_prefix)
  qed
  with False show ?thesis by (simp add: added_ws3_def filter_empty_conv)
qed

subsection \<open>C1: the value shown to the explanation step\<close>

lemma run_query_ws1_runs:
  assumes "files w session_id = Some s"
    and "generate gen w (pm ''NL_TO_QUERY'' [(''query'', KStr query)]) = (Inr raw, w1)"
    and "reasoner (knowledgeBase s) (rstrip_dot (strip raw)) = Inr r"
    and "generate gen w1
           (pm ''RESULT_TO_NL''
              [(''query'', KStr (rstrip_dot (strip raw))),
               (''result'', KStr (dumps (result_for_llm_ws1 r))),
               (''style'', KStr ''a clear and concise explanation'')]) = (Inr a, w2)"
  shows "run_query_ws1 pm gen reasoner dumps session_id query w
         = (Inr \<lparr>queryProlog = rstrip_dot (strip raw), result = r, answer = a,
                 debugInfo = Some [(''generated_prolog_query'', PStr (rstrip_dot (strip raw))),
                                   (''raw_reasoner_result'', r)]\<rparr>, w2)"
  using assms unfolding run_query_ws1_def by (simp add: get_session_def Let_def)

lemma run_query_ws1_explains:
  assumes "run_query_ws1 pm gen reasoner dumps session_id query w = (Inr resp, w')"
  shows "\<exists>s raw w1. files w session_id = Some s
         \<and> generate gen w (pm ''NL_TO_QUERY'' [(''query'', KStr query)]) = (Inr raw, w1)
         \<and> queryProlog resp = rstrip_dot (strip raw)
         \<and> reasoner (knowledgeBase s) (queryProlog resp) = Inr (result resp)
         \<and> generate gen w1
             (pm ''RESULT_TO_NL''
                [(''query'', KStr (queryProlog resp)),
                 (''result'', KStr (dumps (result_for_llm_ws1 (result resp)))),
                 (''style'', KStr ''a clear and concise explanation'')])
           = (Inr (answer resp), w')"
  using assms unfolding run_query_ws1_def get_session_def
  by (auto simp: Let_def split: sum.splits prod.splits option.splits)

lemma run_query_ws2_runs:
  assumes "files w session_id = Some s"
    and "generate gen w (pm ''NL_TO_QUERY''
           [(''query'', KStr query), (''schema'', KList (get_kb_schema_ws2 (knowledgeBase s)))])
         = (Inr raw, w1)"
    and "reasoner (knowledgeBase s) (rstrip_dot (strip raw)) = Inr r"
    and "generate gen w1
           (pm ''RESULT_TO_NL''
              [(''query'', KStr (rstrip_dot (strip raw))),
               (''result'', KStr (dumps (result_for_llm_ws2 r)))]) = (Inr a, w2)"
  shows "run_query_ws2 pm gen reasoner dumps session_id query w
         = (Inr \<lparr>queryProlog = rstrip_dot (strip raw), result = r, answer = a,
                 debugInfo = Some [(''generated_prolog_query'', PStr (rstrip_dot (strip raw))),
                                   (''raw_reasoner_result'', r)]\<rparr>, w2)"
  using assms unfolding run_query_ws2_def by (simp add: get_session_def Let_def)

lemma run_query_ws2_explains:
  assumes "run_query_ws2 pm gen reasoner dumps session_id query w = (Inr resp, w')"
  shows "\<exists>s raw w1. files w session_id = Some s
         \<and> generate gen w (pm ''NL_TO_QUERY''
             [(''query'', KStr query), (''schema'', KList (get_kb_schema_ws2 (knowledgeBase s)))])
           = (Inr raw, w1)
         \<and> queryProlog resp = rstrip_dot (strip raw)
         \<and> reasoner (knowledgeBase s) (queryProlog resp) = Inr (result resp)
         \<and> generate gen w1
             (pm ''RESULT_TO_NL''
                [(''query'', KStr (queryProlog resp)),
                 (''result'', KStr (dumps (result_for_llm_ws2 (result resp))))])
           = (Inr (answer resp), w')"
  using assms unfolding run_query_ws2_def get_session_def
  by (auto simp: Let_def split: sum.splits prod.splits option.splits)

lemma run_query_ws3_runs:
  assumes "files w session_id = Some s"
    and "run_prompt_chain pm gen ''NL_TO_QUERY''
           [(''query'', KStr query), (''schema'', KList (get_kb_schema_ws3 (knowledgeBase s)))] w
         = (Inr raw, w1)"
    and "rstrip_dot raw \<noteq> []"
    and "reasoner (knowledgeBase s) (rstrip_dot raw) = Inr r"
    and "run_prompt_chain pm gen ''RESULT_TO_NL''
           [(''query'', KStr (rstrip_dot raw)),
            (''result'', KStr (dumps (result_for_llm_ws3 r)))] w1 = (Inr a, w2)"
  shows "run_query_ws3 pm gen reasoner dumps session_id query w
         = (Inr \<lparr>queryProlog = rstrip_dot raw, result = r, answer = a, debugInfo = None\<rparr>, w2)"
  using assms unfolding run_query_ws3_def by (simp add: get_session_def Let_def)

lemma run_query_ws3_explains:
  assumes "run_query_ws3 pm gen reasoner dumps session_id query w = (Inr resp, w')"
  shows "\<exists>s raw w1. files w session_id = Some s
         \<and> run_prompt_chain pm gen ''NL_TO_QUERY''
             [(''query'', KStr query), (''schema'', KList (get_kb_schema_ws3 (knowledgeBase s)))] w
           = (Inr raw, w1)
         \<and> queryProlog resp = rstrip_dot raw
         \<and> reasoner (knowledgeBase s) (queryProlog resp) = Inr (result resp)
         \<and> run_prompt_chain pm gen ''RESULT_TO_NL''
             [(''query'', KStr (queryProlog resp)),
              (''result'', KStr (dumps (result_for_llm_ws3 (result resp))))] w1
           = (Inr (answer resp), w')"
  using assms unfolding run_query_ws3_def get_session_def
  by (auto simp: Let_def split: sum.splits prod.splits option.splits if_splits)

text \<open>
  Claim C1, as amended. In mcrws3.py the value shown to the explanation step is the
  outcome of the reasoner, shaped as the claim says. The reasoner is called on the stored
  knowledge base and on the translated goal; when it returns the outcome \<open>r\<close>, the chain
  for \<^verbatim>\<open>RESULT_TO_NL\<close> is run on the serialized shaped \<open>r\<close>, and when that chain returns,
  the query call returns the goal, \<open>r\<close> itself and the chain's text; a query call returns
  in no other way. The shaping: true becomes the token \<^verbatim>\<open>"true"\<close>; false, the empty list
  and the engine's \<^verbatim>\<open>['No']\<close> become the token \<^verbatim>\<open>"No"\<close>; a non-empty list of binding records
  is passed on unchanged. With the dispatcher of mcrws3.py as the reasoner the outcome
  is the empty list or counts as true in Python, so that every outcome other than true,
  the empty list and \<^verbatim>\<open>['No']\<close> is passed on unchanged. mcrws1.py and mcrws2.py run the same steps and
  shape differently. In mcrws1.py every outcome that counts as true in Python (the
  boolean true, any non-empty list) becomes \<^verbatim>\<open>"Yes"\<close>, every other one \<^verbatim>\<open>"No"\<close>. In
  mcrws2.py true becomes \<^verbatim>\<open>"true"\<close>, false becomes \<^verbatim>\<open>"No"\<close>, and every list, the empty one
  included, is passed on unchanged.
\<close>

theorem query_result_shaping:
  "(result_for_llm_ws3 (PBool True) = PStr ''true''
    \<and> result_for_llm_ws3 (PBool False) = PStr ''No''
    \<and> result_for_llm_ws3 (PList []) = PStr ''No''
    \<and> result_for_llm_ws3 (PList [PStr ''No'']) = PStr ''No''
    \<and> (bindings \<noteq> [] \<and> list_all is_binding bindings
         \<longrightarrow> result_for_llm_ws3 (PList bindings) = PList bindings)
    \<and> (files w session_id = Some s
        \<and> run_prompt_chain pm3 gen ''NL_TO_QUERY''
            [(''query'', KStr query), (''schema'', KList (get_kb_schema_ws3 (knowledgeBase s)))] w
          = (Inr raw3, w1)
        \<and> rstrip_dot raw3 \<noteq> []
        \<and> reasoner (knowledgeBase s) (rstrip_dot raw3) = Inr r
        \<and> run_prompt_chain pm3 gen ''RESULT_TO_NL''
            [(''query'', KStr (rstrip_dot raw3)),
             (''result'', KStr (dumps (result_for_llm_ws3 r)))] w1 = (Inr a, w2)
         \<longrightarrow> run_query_ws3 pm3 gen reasoner dumps session_id query w
             = (Inr \<lparr>queryProlog = rstrip_dot raw3, result = r, answer = a, debugInfo = None\<rparr>, w2))
    \<and> (run_query_ws3 pm3 gen reasoner dumps session_id query w = (Inr resp, w')
         \<longrightarrow> (\<exists>s raw w1. files w session_id = Some s
                \<and> run_prompt_chain pm3 gen ''NL_TO_QUERY''
                    [(''query'', KStr query),
                     (''schema'', KList (get_kb_schema_ws3 (knowledgeBase s)))] w
                  = (Inr raw, w1)
                \<and> queryProlog resp = rstrip_dot raw
                \<and> reasoner (knowledgeBase s) (queryProlog resp) = Inr (result resp)
                \<and> run_prompt_chain pm3 gen ''RESULT_TO_NL''
                    [(''query'', KStr (queryProlog resp)),
                     (''result'', KStr (dumps (result_for_llm_ws3 (result resp))))] w1
                  = (Inr (answer resp), w')))
    \<and> (query_ws3 eng kb goal = Inr out
         \<longrightarrow> result_for_llm_ws3 out
             = (if out = PBool True then PStr ''true''
                else if out = PList [] \<or> out = PList [PStr ''No''] then PStr ''No'' else out)))
   \<and> (result_for_llm_ws1 (PBool True) = PStr ''Yes''
    \<and> result_for_llm_ws1 (PBool False) = PStr ''No''
    \<and> result_for_llm_ws1 (PList []) = PStr ''No''
    \<and> (bindings \<noteq> [] \<longrightarrow> result_for_llm_ws1 (PList bindings) = PStr ''Yes'')
    \<and> (files w session_id = Some s
        \<and> generate gen w (pm ''NL_TO_QUERY'' [(''query'', KStr query)]) = (Inr raw1, w1)
        \<and> reasoner (knowledgeBase s) (rstrip_dot (strip raw1)) = Inr r
        \<and> generate gen w1
            (pm ''RESULT_TO_NL''
               [(''query'', KStr (rstrip_dot (strip raw1))),
                (''result'', KStr (dumps (result_for_llm_ws1 r))),
                (''style'', KStr ''a clear and concise explanation'')]) = (Inr a, w2)
         \<longrightarrow> run_query_ws1 pm gen reasoner dumps session_id query w
             = (Inr \<lparr>queryProlog = rstrip_dot (strip raw1), result = r, answer = a,
                     debugInfo = Some [(''generated_prolog_query'', PStr (rstrip_dot (strip raw1))),
                                       (''raw_reasoner_result'', r)]\<rparr>, w2))
    \<and> (run_query_ws1 pm gen reasoner dumps session_id query w = (Inr resp, w')
         \<longrightarrow> (\<exists>s raw w1. files w session_id = Some s
                \<and> generate gen w (pm ''NL_TO_QUERY'' [(''query'', KStr query)]) = (Inr raw, w1)
                \<and> queryProlog resp = rstrip_dot (strip raw)
                \<and> reasoner (knowledgeBase s) (queryProlog resp) = Inr (result resp)
                \<and> generate gen w1
                    (pm ''RESULT_TO_NL''
                       [(''query'', KStr (queryProlog resp)),
                        (''result'', KStr (dumps (result_for_llm_ws1 (result resp)))),
                        (''style'', KStr ''a clear and concise explanation'')])
                  = (Inr (answer resp), w'))))
   \<and> (result_for_llm_ws2 (PBool True) = PStr ''true''
    \<and> result_for_llm_ws2 (PBool False) = PStr ''No''
    \<and> result_for_llm_ws2 (PList bindings) = PList bindings
    \<and> (files w session_id = Some s
        \<and> generate gen w (pm ''NL_TO_QUERY''
            [(''query'', KStr query), (''schema'', KList (get_kb_schema_ws2 (knowledgeBase s)))])
          = (Inr raw2, w1)
        \<and> reasoner (knowledgeBase s) (rstrip_dot (strip raw2)) = Inr r
        \<and> generate gen w1
            (pm ''RESULT_TO_NL''
               [(''query'', KStr (rstrip_dot (strip raw2))),
                (''result'', KStr (dumps (result_for_llm_ws2 r)))]) = (Inr a, w2)
         \<longrightarrow> run_query_ws2 pm gen reasoner dumps session_id query w
             = (Inr \<lparr>queryProlog = rstrip_dot (strip raw2), result = r, answer = a,
                     debugInfo = Some [(''generated_prolog_query'', PStr (rstrip_dot (strip raw2))),
                                       (''raw_reasoner_result'', r)]\<rparr>, w2))
    \<and> (run_query_ws2 pm gen reasoner dumps session_id query w = (Inr resp, w')
         \<longrightarrow> (\<exists>s raw w1. files w session_id = Some s
                \<and> generate gen w (pm ''NL_TO_QUERY''
                    [(''query'', KStr query),
                     (''schema'', KList (get_kb_schema_ws2 (knowledgeBase s)))])
                  = (Inr raw, w1)
                \<and> queryProlog resp = rstrip_dot (strip raw)
                \<and> reasoner (knowledgeBase s) (queryProlog resp) = Inr (result resp)
                \<and> generate gen w1
                    (pm ''RESULT_TO_NL''
                       [(''query'', KStr (queryProlog resp)),
                        (''result'', KStr (dumps (result_for_llm_ws2 (result resp))))])
                  = (Inr (answer resp), w'))))"
proof -
  have b: "result_for_llm_ws3 (PList bindings) = PList bindings"
    if "bindings \<noteq> []" and "list_all is_binding bindings"
  proof -
    from that obtain x xs where "bindings = x # xs" and "is_binding x"
      by (cases bindings) auto
    then show ?thesis by (cases x) (auto simp: result_for_llm_ws3_def)
  qed
  have v3: "result_for_llm_ws3 (PBool True) = PStr ''true''"
    "result_for_llm_ws3 (PBool False) = PStr ''No''"
    "result_for_llm_ws3 (PList []) = PStr ''No''"
    "result_for_llm_ws3 (PList [PStr ''No'']) = PStr ''No''"
    by (simp_all add: result_for_llm_ws3_def)
  have q: "result_for_llm_ws3 out
             = (if out = PBool True then PStr ''true''
                else if out = PList [] \<or> out = PList [PStr ''No''] then PStr ''No'' else out)"
    if "query_ws3 eng kb goal = Inr out"
  proof -
    from that have "truthy out \<or> out = PList []"
      by (auto simp: query_ws3_def guarded_query_def Let_def
          split: option.splits sum.splits awaited.splits if_splits)
    then show ?thesis by (cases out) (auto simp: result_for_llm_ws3_def)
  qed
  have v1: "result_for_llm_ws1 (PBool True) = PStr ''Yes''"
    "result_for_llm_ws1 (PBool False) = PStr ''No''"
    "result_for_llm_ws1 (PList []) = PStr ''No''"
    "bindings \<noteq> [] \<longrightarrow> result_for_llm_ws1 (PList bindings) = PStr ''Yes''"
    by (simp_all add: result_for_llm_ws1_def)
  have v2: "result_for_llm_ws2 (PBool True) = PStr ''true''"
    "result_for_llm_ws2 (PBool False) = PStr ''No''"
    "result_for_llm_ws2 (PList bindings) = PList bindings"
    by (simp_all add: result_for_llm_ws2_def)
  note f1 = run_query_ws1_runs [of w session_id s gen pm query raw1 w1 reasoner r dumps a w2]
  note f2 = run_query_ws2_runs [of w session_id s gen pm query raw2 w1 reasoner r dumps a w2]
  note f3 = run_query_ws3_runs [of w session_id s pm3 gen query raw3 w1 reasoner r dumps a w2]
  note e1 = run_query_ws1_explains [of pm gen reasoner dumps session_id query w resp w']
  note e2 = run_query_ws2_explains [of pm gen reasoner dumps session_id query w resp w']
  note e3 = run_query_ws3_explains [of pm3 gen reasoner dumps session_id query w resp w']
  show ?thesis
    apply (intro conjI impI)
    using v3 v1 v2 b q f1 f2 f3 e1 e2 e3 by blast+
qed

text \<open>
  The theorem at a query call of mcrws3.py on the knowledge base \<^verbatim>\<open>a(b).\<close>: the backend
  translates the question to the goal \<^verbatim>\<open>a(b)\<close>, the dispatcher returns true on the stored
  text and this goal, the explanation step is shown \<^verbatim>\<open>"true"\<close>, and the call returns the
  goal, true and the text of the explanation step. At the binding list \<^verbatim>\<open>[{'X': 'b'}]\<close>
  the shaped value is the list itself; on the goal \<^verbatim>\<open>c(d)\<close> the dispatcher returns the
  empty list, which is shown as \<^verbatim>\<open>"No"\<close>.
\<close>

theorem query_result_shaping_witness:
  "query_ws3 toy_engine ''a(b).'' ''a(b)'' = Inr (PBool True)
   \<and> fst (run_query_ws3 show_result scripted (query_ws3 toy_engine) plain_dumps ''s1'' ''Is a b?''
          (world0 ''a(b).'' [Inr ''a(b)'']))
     = Inr \<lparr>queryProlog = ''a(b)'', result = PBool True,
            answer = ''RESULT_TO_NL: '' @ [CHR 0x22] @ ''true'' @ [CHR 0x22], debugInfo = None\<rparr>
   \<and> result_for_llm_ws3 (PList [PDict [(''X'', PStr ''b'')]]) = PList [PDict [(''X'', PStr ''b'')]]
   \<and> query_ws3 toy_engine ''a(b).'' ''c(d)'' = Inr (PList [])
   \<and> result_for_llm_ws3 (PList []) = PStr ''No''"
proof -
  let ?w = "world0 ''a(b).'' [Inr ''a(b)'' :: error + string]"
  let ?s = "session0 ''a(b).''"
  let ?a = "''RESULT_TO_NL: '' @ [CHR 0x22] @ ''true'' @ [CHR 0x22]"
  let ?c1 = "run_prompt_chain show_result scripted ''NL_TO_QUERY''
      [(''query'', KStr ''Is a b?''), (''schema'', KList (get_kb_schema_ws3 (knowledgeBase ?s)))] ?w"
  let ?c2 = "run_prompt_chain show_result scripted ''RESULT_TO_NL''
      [(''query'', KStr (rstrip_dot ''a(b)'')),
       (''result'', KStr (plain_dumps (result_for_llm_ws3 (PBool True))))] (snd ?c1)"
  have s: "files ?w ''s1'' = Some ?s" by (simp add: world0_def)
  have "fst ?c1 = Inr ''a(b)''" by code_simp
  then have c1: "?c1 = (Inr ''a(b)'', snd ?c1)" by (metis prod.collapse)
  have n: "rstrip_dot ''a(b)'' \<noteq> []" by code_simp
  have q: "query_ws3 toy_engine (knowledgeBase ?s) (rstrip_dot ''a(b)'') = Inr (PBool True)"
    by code_simp
  have "fst ?c2 = Inr ?a" by code_simp
  then have c2: "?c2 = (Inr ?a, snd ?c2)" by (metis prod.collapse)
  have g: "rstrip_dot ''a(b)'' = ''a(b)''" by code_simp
  have e: "query_ws3 toy_engine ''a(b).'' ''c(d)'' = Inr (PList [])" by code_simp
  have l: "list_all is_binding [PDict [(''X'', PStr ''b'')]]" by simp
  note th = query_result_shaping [of "[PDict [(''X'', PStr ''b'')]]" ?w "''s1''" ?s show_result
      scripted "''Is a b?''" "''a(b)''" "snd ?c1" "query_ws3 toy_engine" "PBool True" plain_dumps
      ?a "snd ?c2" _ _ toy_engine "''a(b).''" "''c(d)''" "PList []", THEN conjunct1]
  note run = th [THEN conjunct2, THEN conjunct2, THEN conjunct2, THEN conjunct2, THEN conjunct2,
      THEN conjunct1, THEN mp, OF conjI [OF s conjI [OF c1 conjI [OF n conjI [OF q c2]]]]]
  from run g have r: "fst (run_query_ws3 show_result scripted (query_ws3 toy_engine) plain_dumps
      ''s1'' ''Is a b?'' ?w)
     = Inr \<lparr>queryProlog = ''a(b)'', result = PBool True, answer = ?a, debugInfo = None\<rparr>"
    by simp
  from th l have b: "result_for_llm_ws3 (PList [PDict [(''X'', PStr ''b'')]])
      = PList [PDict [(''X'', PStr ''b'')]]" by blast
  from th e have d: "result_for_llm_ws3 (PList []) = PStr ''No''" by blast
  from q have q': "query_ws3 toy_engine ''a(b).'' ''a(b)'' = Inr (PBool True)"
    by (simp add: g session0_def)
  from q' r b e d show ?thesis by blast
qed

text \<open>
  The claim as it was stated fails on mcrws1.py and on mcrws2.py. On the knowledge base
  \<^verbatim>\<open>a(b).\<close> and the goal \<^verbatim>\<open>a(b)\<close> the engine returns true and the explanation step of
  mcrws1.py is shown \<^verbatim>\<open>"Yes"\<close>, not \<^verbatim>\<open>"true"\<close>; in mcrws2.py the empty outcome is shown as
  the empty list, not as \<^verbatim>\<open>"No"\<close>.
\<close>

theorem query_shaping_ws1_yes_ws2_empty:
  "fst (run_query_ws1 show_result1 scripted (query_ws1 toy_engine) plain_dumps ''s1'' ''Is a b?''
          (world0 ''a(b).'' [Inr ''a(b)'']))
     = Inr \<lparr>queryProlog = ''a(b)'', result = PBool True,
            answer = ''RESULT_TO_NL: '' @ [CHR 0x22] @ ''Yes'' @ [CHR 0x22],
            debugInfo = Some [(''generated_prolog_query'', PStr ''a(b)''),
                              (''raw_reasoner_result'', PBool True)]\<rparr>
   \<and> result_for_llm_ws1 (PBool True) \<noteq> PStr ''true''
   \<and> fst (run_query_ws2 show_result1 scripted (query_ws2 toy_engine) plain_dumps ''s1'' ''Is c d?''
          (world0 ''a(b).'' [Inr ''c(d)'']))
     = Inr \<lparr>queryProlog = ''c(d)'', result = PList [],
            answer = ''RESULT_TO_NL: []'',
            debugInfo = Some [(''generated_prolog_query'', PStr ''c(d)''),
                              (''raw_reasoner_result'', PList [])]\<rparr>
   \<and> result_for_llm_ws2 (PList []) \<noteq> PStr ''No''"
  by code_simp

subsection \<open>C2: what the clause normalizer emits\<close>

lemma trimmed_nonempty: "trimmed c \<Longrightarrow> c \<noteq> []"
  by (simp add: trimmed_def)

lemma output_not_blank:
  assumes "trimmed c" and "hd c \<noteq> CHR ''%''"
  shows "strip c \<noteq> []" and "\<not> startswith (strip c) ''%''"
  using assms by (simp_all add: strip_id trimmed_nonempty startswith_percent_iff)

lemma match_name_paren_not_percent:
  "match_name_paren c = Some (name, r) \<Longrightarrow> hd c \<noteq> CHR ''%''"
  by (auto simp: match_name_paren_def is_lower_az_def split: list.splits if_splits)

text \<open>
  Claim C2, as amended. Every string that the normalizer of mcrws1.py or of mcrws3.py
  emits ends with the terminator \<^verbatim>\<open>.\<close>; every string that the normalizer of mcrws2.py
  emits ends with \<^verbatim>\<open>.\<close> or with \<^verbatim>\<open>:\<close> (a line that ends with a colon is passed on as it
  is). In all three no emitted string is blank or starts with the comment marker \<^verbatim>\<open>%\<close>.
\<close>

theorem normalizer_output_terminated:
  "(c \<in> set (extract_prolog_ws1 text) \<or> c \<in> set (extract_prolog_ws3 text)
      \<longrightarrow> endswith c ''.'' \<and> strip c \<noteq> [] \<and> \<not> startswith (strip c) ''%'')
   \<and> (c \<in> set (extract_prolog_ws2 text)
      \<longrightarrow> (endswith c ''.'' \<or> endswith c '':'') \<and> strip c \<noteq> [] \<and> \<not> startswith (strip c) ''%'')"
proof (intro conjI impI)
  assume a: "c \<in> set (extract_prolog_ws1 text) \<or> c \<in> set (extract_prolog_ws3 text)"
  then have "endswith c ''.'' \<and> trimmed c \<and> hd c \<noteq> CHR ''%''"
  proof
    assume "c \<in> set (extract_prolog_ws1 text)"
    then show ?thesis by (simp add: extract_prolog_ws1_elem)
  next
    assume c: "c \<in> set (extract_prolog_ws3 text)"
    from extract_prolog_ws3_shape(1) [OF c] have "hd c \<noteq> CHR ''%''"
      by (auto dest: match_name_paren_not_percent)
    with extract_prolog_ws3_shape(2,3) [OF c] show ?thesis by simp
  qed
  then show "endswith c ''.''" and "strip c \<noteq> []" and "\<not> startswith (strip c) ''%''"
    by (simp_all add: output_not_blank)
next
  assume c: "c \<in> set (extract_prolog_ws2 text)"
  from extract_prolog_ws2_elem [OF c]
  show "endswith c ''.'' \<or> endswith c '':''" and "strip c \<noteq> []" and "\<not> startswith (strip c) ''%''"
    by (simp_all add: output_not_blank)
qed

text \<open>
  The theorem at the answer \<^verbatim>\<open>Output:\<close>, newline, \<^verbatim>\<open>color(sphere, red)\<close>.
\<close>

theorem normalizer_output_terminated_witness:
  "extract_prolog_ws1 (''Output:'' @ [LF] @ ''color(sphere, red)'') = [''Output:.'', ''color(sphere, red).'']
   \<and> extract_prolog_ws3 (''Output:'' @ [LF] @ ''color(sphere, red)'') = [''color(sphere, red).'']
   \<and> extract_prolog_ws2 (''Output:'' @ [LF] @ ''color(sphere, red)'') = [''Output:'', ''color(sphere, red).'']
   \<and> endswith ''color(sphere, red).'' ''.'' \<and> strip ''color(sphere, red).'' \<noteq> []
   \<and> \<not> startswith (strip ''color(sphere, red).'') ''%''
   \<and> (endswith ''Output:'' ''.'' \<or> endswith ''Output:'' '':'')"
proof -
  let ?t = "''Output:'' @ [LF] @ ''color(sphere, red)''"
  have e1: "extract_prolog_ws1 ?t = [''Output:.'', ''color(sphere, red).'']" by code_simp
  have e3: "extract_prolog_ws3 ?t = [''color(sphere, red).'']" by code_simp
  have e2: "extract_prolog_ws2 ?t = [''Output:'', ''color(sphere, red).'']" by code_simp
  from normalizer_output_terminated [of "''color(sphere, red).''" ?t] e3
  have "endswith ''color(sphere, red).'' ''.'' \<and> strip ''color(sphere, red).'' \<noteq> []
     \<and> \<not> startswith (strip ''color(sphere, red).'') ''%''" by simp
  moreover from normalizer_output_terminated [of "''Output:''" ?t] e2
  have "endswith ''Output:'' ''.'' \<or> endswith ''Output:'' '':''" by simp
  ultimately show ?thesis using e1 e2 e3 by simp
qed

text \<open>
  The claim as it was stated fails on mcrws2.py: the line \<^verbatim>\<open>Output:\<close> is emitted without
  a terminator.
\<close>

theorem normalizer_ws2_keeps_colon_line:
  "''Output:'' \<in> set (extract_prolog_ws2 (''Output:'' @ [LF] @ ''color(sphere, red)''))
   \<and> \<not> endswith ''Output:'' ''.''"
proof -
  have "extract_prolog_ws2 (''Output:'' @ [LF] @ ''color(sphere, red)'')
        = [''Output:'', ''color(sphere, red).'']" by code_simp
  moreover have "\<not> endswith ''Output:'' ''.''" by (simp add: endswith_def)
  ultimately show ?thesis by simp
qed

subsection \<open>C3: the shape check of the clause normalizer\<close>

lemma match_name_paren_line:
  assumes "match_name_paren m = Some (name, r)"
  shows "match_name_paren (takeWhile (\<lambda>x. x \<noteq> LF) (m @ post))
         = Some (name, takeWhile (\<lambda>x. x \<noteq> LF) (r @ post))"
proof -
  from assms have v: "valid_name name" and m: "m = name @ ''('' @ r"
    by (simp_all add: match_name_paren_iff)
  from v have "\<forall>x\<in>set name. x \<noteq> LF"
    by (cases name) (auto simp: valid_name_def is_lower_az_def ident_char_def)
  then have "takeWhile (\<lambda>x. x \<noteq> LF) (name @ ''('' @ r @ post)
             = name @ ''('' @ takeWhile (\<lambda>x. x \<noteq> LF) (r @ post)"
    by (simp add: takeWhile_append)
  with m match_name_paren_intro [OF v, of "takeWhile (\<lambda>x. x \<noteq> LF) (r @ post)"]
  show ?thesis by simp
qed

lemma match_name_paren_dot:
  assumes "match_name_paren l = None"
  shows "match_name_paren (l @ ''.'') = None"
proof (rule ccontr)
  assume "match_name_paren (l @ ''.'') \<noteq> None"
  then obtain name r where "match_name_paren (l @ ''.'') = Some (name, r)" by auto
  then have v: "valid_name name" and e: "l @ ''.'' = name @ ''('' @ r"
    by (simp_all add: match_name_paren_iff)
  have "r \<noteq> []"
  proof
    assume "r = []"
    with e have "last (l @ ''.'') = last (name @ ''('')" by simp
    then show False by simp
  qed
  then obtain r' where r: "r = r' @ [last r]" by (metis append_butlast_last_id)
  with e have "l @ ''.'' = (name @ ''('' @ r') @ [last r]" by simp
  then have "l = name @ ''('' @ r'" by (metis append1_eq_conv)
  with match_name_paren_intro [OF v, of r'] have "match_name_paren l = Some (name, r')" by simp
  with assms show False by simp
qed

lemma kept_lines_mem:
  assumes "l \<in> set (split_char LF text)" and "strip l \<noteq> []" and "\<not> startswith (strip l) ''%''"
  shows "strip l \<in> set (kept_lines text)"
  using assms by (auto simp: kept_lines_def)

lemma split_acc_append:
  "split_acc sep cur (a @ sep # b) = split_acc sep cur a @ split_acc sep [] b"
  by (induction a arbitrary: cur) simp_all

lemma split_acc_first:
  "cur @ takeWhile (\<lambda>x. x \<noteq> sep) s \<in> set (split_acc sep cur s)"
proof (induction s arbitrary: cur)
  case Nil
  show ?case by simp
next
  case (Cons a s)
  from Cons [of "cur @ [a]"] show ?case by simp
qed

lemma line_at_start:
  assumes "text = pre @ s" and "pre = [] \<or> last pre = LF"
  shows "takeWhile (\<lambda>x. x \<noteq> LF) s \<in> set (split_char LF text)"
proof -
  from split_acc_first [of "[]" LF s]
  have h: "takeWhile (\<lambda>x. x \<noteq> LF) s \<in> set (split_char LF s)" by (auto simp: split_char_def)
  show ?thesis
  proof (cases "pre = []")
    case True
    with assms(1) h show ?thesis by simp
  next
    case False
    with assms(2) have "pre = butlast pre @ [LF]" by (metis append_butlast_last_id)
    with assms(1) have "text = butlast pre @ LF # s" by (metis append.assoc append_Cons append_Nil)
    with h split_acc_append [of LF "[]" "butlast pre" s] show ?thesis
      by (simp add: split_char_def)
  qed
qed

lemma extract_prolog_ws3_match:
  assumes "c \<in> set (extract_prolog_ws3 text)"
  shows "\<exists>pre m post. text = pre @ m @ post \<and> (pre = [] \<or> last pre = LF)
           \<and> match_prolog (m @ post) = Some (m, post)
           \<and> takeWhile (\<lambda>x. x \<noteq> LF) (m @ post) \<in> set (split_char LF text)
           \<and> match_name_paren (takeWhile (\<lambda>x. x \<noteq> LF) (m @ post)) \<noteq> None
           \<and> c = (if endswith (strip m) ''.'' then strip m else strip m @ ''.'')"
proof -
  from assms obtain m where m: "m \<in> set (findall_prolog True text)"
    and c: "c = (if endswith (strip m) ''.'' then strip m else strip m @ ''.'')"
    by (auto simp: extract_prolog_ws3_def)
  from findall_prolog_elem [OF m] obtain pre post where
    t: "text = pre @ m @ post" and b: "pre = [] \<or> last pre = LF"
    and q: "match_prolog (m @ post) = Some (m, post)" by (auto split: if_splits)
  from q obtain name r2 where "match_name_paren (m @ post) = Some (name, r2)"
    by (rule match_prolog_parts)
  from match_name_paren_line [OF this, of "[]"]
  have n: "match_name_paren (takeWhile (\<lambda>x. x \<noteq> LF) (m @ post)) \<noteq> None" by simp
  from line_at_start [OF t b]
  have l: "takeWhile (\<lambda>x. x \<noteq> LF) (m @ post) \<in> set (split_char LF text)" .
  from t b q l n c show ?thesis by blast
qed

lemma match_prolog_reading:
  assumes "match_prolog s = Some (m, rest)"
  shows "\<exists>name args tail. valid_name name \<and> CHR '')'' \<notin> set args
           \<and> m = name @ ''('' @ args @ '')'' @ tail"
proof -
  from assms obtain name r2 dot ws body where
    np: "match_name_paren s = Some (name, r2)"
    and m: "m = name @ ''('' @ takeWhile (\<lambda>x. x \<noteq> CHR '')'') r2 @ '')'' @ dot @ ws @ body"
    by (rule match_prolog_parts)
  have "CHR '')'' \<notin> set (takeWhile (\<lambda>x. x \<noteq> CHR '')'') r2)" by (auto dest: set_takeWhileD)
  with match_name_paren_name [OF np] m show ?thesis by blast
qed

text \<open>
  Claim C3, as amended. In mcrws3.py every emitted clause is a match of the pattern,
  trimmed and terminated. The match is a lowercase identifier, \<^verbatim>\<open>(\<close>, the text up to the
  first \<^verbatim>\<open>)\<close>, and what follows of the pattern; it begins at the beginning of a line of the
  text, and that line begins with a lowercase identifier immediately followed by \<^verbatim>\<open>(\<close>.
  The emitted clause begins so as well, hence a string that fails this shape check is not
  in the output, with or without a terminator, and a text with no line that passes the
  check has no output. The text up to the first \<^verbatim>\<open>)\<close> may run over line breaks, so that
  a line that fails the check can be inside an emitted clause. mcrws1.py and mcrws2.py
  have no shape check: every line that is not blank and not a comment is emitted,
  trimmed, prose and headers included; mcrws1.py adds the terminator to a line that does
  not end with it, mcrws2.py to a line that ends neither with it nor with a colon.
\<close>

theorem normalizer_shape_check:
  "(c \<in> set (extract_prolog_ws3 text) \<longrightarrow>
      (\<exists>name r. match_name_paren c = Some (name, r))
      \<and> (\<exists>pre m post. text = pre @ m @ post \<and> (pre = [] \<or> last pre = LF)
            \<and> match_prolog (m @ post) = Some (m, post)
            \<and> takeWhile (\<lambda>x. x \<noteq> LF) (m @ post) \<in> set (split_char LF text)
            \<and> match_name_paren (takeWhile (\<lambda>x. x \<noteq> LF) (m @ post)) \<noteq> None
            \<and> c = (if endswith (strip m) ''.'' then strip m else strip m @ ''.'')))
   \<and> (match_prolog s = Some (m, rest) \<longrightarrow>
        s = m @ rest
        \<and> (\<exists>name args tail. valid_name name \<and> CHR '')'' \<notin> set args
              \<and> m = name @ ''('' @ args @ '')'' @ tail))
   \<and> (match_name_paren l = None \<longrightarrow>
        l \<notin> set (extract_prolog_ws3 text) \<and> l @ ''.'' \<notin> set (extract_prolog_ws3 text))
   \<and> ((\<forall>x\<in>set (split_char LF text). match_name_paren x = None) \<longrightarrow> extract_prolog_ws3 text = [])
   \<and> (l \<in> set (split_char LF text) \<and> strip l \<noteq> [] \<and> \<not> startswith (strip l) ''%'' \<longrightarrow>
        (if endswith (strip l) ''.'' then strip l else strip l @ ''.'') \<in> set (extract_prolog_ws1 text)
        \<and> (if search_colon_dot_end (strip l) then strip l else strip l @ ''.'')
            \<in> set (extract_prolog_ws2 text))"
proof (intro conjI impI)
  assume c: "c \<in> set (extract_prolog_ws3 text)"
  show "\<exists>name r. match_name_paren c = Some (name, r)"
    by (rule extract_prolog_ws3_shape(1) [OF c])
  show "\<exists>pre m post. text = pre @ m @ post \<and> (pre = [] \<or> last pre = LF)
      \<and> match_prolog (m @ post) = Some (m, post)
      \<and> takeWhile (\<lambda>x. x \<noteq> LF) (m @ post) \<in> set (split_char LF text)
      \<and> match_name_paren (takeWhile (\<lambda>x. x \<noteq> LF) (m @ post)) \<noteq> None
      \<and> c = (if endswith (strip m) ''.'' then strip m else strip m @ ''.'')"
    by (rule extract_prolog_ws3_match [OF c])
next
  assume q: "match_prolog s = Some (m, rest)"
  show "s = m @ rest" by (rule match_prolog_split(1) [OF q])
  show "\<exists>name args tail. valid_name name \<and> CHR '')'' \<notin> set args
      \<and> m = name @ ''('' @ args @ '')'' @ tail"
    by (rule match_prolog_reading [OF q])
next
  assume n: "match_name_paren l = None"
  show "l \<notin> set (extract_prolog_ws3 text)"
    using extract_prolog_ws3_shape(1) [of l "text"] n by auto
  show "l @ ''.'' \<notin> set (extract_prolog_ws3 text)"
    using extract_prolog_ws3_shape(1) [of "l @ ''.''" "text"] match_name_paren_dot [OF n] by auto
next
  assume a: "\<forall>x\<in>set (split_char LF text). match_name_paren x = None"
  show "extract_prolog_ws3 text = []"
  proof (rule ccontr)
    assume "extract_prolog_ws3 text \<noteq> []"
    then obtain c where "c \<in> set (extract_prolog_ws3 text)" by (cases "extract_prolog_ws3 text") auto
    from extract_prolog_ws3_match [OF this] obtain x where
      "x \<in> set (split_char LF text)" and "match_name_paren x \<noteq> None" by blast
    moreover from a this(1) have "match_name_paren x = None" by (rule bspec)
    ultimately show False by simp
  qed
next
  assume "l \<in> set (split_char LF text) \<and> strip l \<noteq> [] \<and> \<not> startswith (strip l) ''%''"
  then have k: "strip l \<in> set (kept_lines text)" by (simp add: kept_lines_mem)
  from k show "(if endswith (strip l) ''.'' then strip l else strip l @ ''.'')
      \<in> set (extract_prolog_ws1 text)"
    by (auto simp: extract_prolog_ws1_def)
  from k show "(if search_colon_dot_end (strip l) then strip l else strip l @ ''.'')
      \<in> set (extract_prolog_ws2 text)"
    by (auto simp: extract_prolog_ws2_def)
qed

text \<open>
  The theorem at the answer \<^verbatim>\<open>Sure, here it is.\<close>, newline, \<^verbatim>\<open>color(sphere, red).\<close>:
  mcrws3.py keeps the clause and drops the prose, mcrws1.py and mcrws2.py emit both; and
  at the answer \<^verbatim>\<open>Sure, here it is.\<close> alone, where mcrws3.py emits nothing.
\<close>

theorem normalizer_shape_check_witness:
  "extract_prolog_ws3 (''Sure, here it is.'' @ [LF] @ ''color(sphere, red).'') = [''color(sphere, red).'']
   \<and> (\<exists>name r. match_name_paren ''color(sphere, red).'' = Some (name, r))
   \<and> match_prolog ''color(sphere, red).'' = Some (''color(sphere, red).'', [])
   \<and> (\<exists>name args tail. valid_name name \<and> CHR '')'' \<notin> set args
         \<and> ''color(sphere, red).'' = name @ ''('' @ args @ '')'' @ tail)
   \<and> match_name_paren ''Sure, here it is.'' = None
   \<and> ''Sure, here it is.'' \<notin> set (extract_prolog_ws3 (''Sure, here it is.'' @ [LF] @ ''color(sphere, red).''))
   \<and> extract_prolog_ws3 ''Sure, here it is.'' = []
   \<and> ''Sure, here it is.'' \<in> set (extract_prolog_ws1 (''Sure, here it is.'' @ [LF] @ ''color(sphere, red).''))
   \<and> ''Sure, here it is.'' \<in> set (extract_prolog_ws2 (''Sure, here it is.'' @ [LF] @ ''color(sphere, red).''))"
proof -
  let ?l = "''Sure, here it is.''"
  let ?c = "''color(sphere, red).''"
  let ?t = "''Sure, here it is.'' @ [LF] @ ''color(sphere, red).''"
  have e3: "extract_prolog_ws3 ?t = [?c]" by code_simp
  have n: "match_name_paren ?l = None" by code_simp
  have q: "match_prolog ?c = Some (?c, [])" by code_simp
  have s: "split_char LF ?t = [?l, ?c]" by code_simp
  have s1: "split_char LF ?l = [?l]" by code_simp
  have t: "strip ?l = ?l" by code_simp
  have d: "endswith ?l ''.''" "search_colon_dot_end ?l" "\<not> startswith ?l ''%''" by code_simp+
  note th = normalizer_shape_check [of ?c ?t ?c ?c "[]" ?l]
  note th1 = normalizer_shape_check [of ?c ?l ?c ?c "[]" ?l]
  from th e3 have "\<exists>name r. match_name_paren ?c = Some (name, r)" by simp
  moreover from th q have "\<exists>name args tail. valid_name name \<and> CHR '')'' \<notin> set args
         \<and> ?c = name @ ''('' @ args @ '')'' @ tail" by blast
  moreover from th n have "?l \<notin> set (extract_prolog_ws3 ?t)" by blast
  moreover from th1 s1 n have "extract_prolog_ws3 ?l = []" by simp
  moreover from th s t d have "?l \<in> set (extract_prolog_ws1 ?t) \<and> ?l \<in> set (extract_prolog_ws2 ?t)"
    by simp
  ultimately show ?thesis using e3 n q by blast
qed

text \<open>
  The claim as it was stated fails on the three revisions. The line \<^verbatim>\<open>Sure, here it is.\<close>
  does not begin with a lowercase identifier and \<^verbatim>\<open>(\<close>, and it is in the output of
  mcrws1.py and of mcrws2.py. In mcrws3.py the answer \<^verbatim>\<open>likes(alice,\<close>, newline,
  \<^verbatim>\<open>Sure, here it is.\<close>, newline, \<^verbatim>\<open>bob).\<close> is emitted as one clause, whose second line is
  the line that fails the check.
\<close>

theorem normalizer_emits_failing_lines:
  "match_name_paren ''Sure, here it is.'' = None
   \<and> extract_prolog_ws1 (''Sure, here it is.'' @ [LF] @ ''color(sphere, red).'')
       = [''Sure, here it is.'', ''color(sphere, red).'']
   \<and> extract_prolog_ws2 (''Sure, here it is.'' @ [LF] @ ''color(sphere, red).'')
       = [''Sure, here it is.'', ''color(sphere, red).'']
   \<and> extract_prolog_ws3 (''likes(alice,'' @ [LF] @ ''Sure, here it is.'' @ [LF] @ ''bob).'')
       = [''likes(alice,'' @ [LF] @ ''Sure, here it is.'' @ [LF] @ ''bob).'']
   \<and> split_char LF (''likes(alice,'' @ [LF] @ ''Sure, here it is.'' @ [LF] @ ''bob).'')
       = [''likes(alice,'', ''Sure, here it is.'', ''bob).'']"
  by code_simp

subsection \<open>C4: an assert call whose translation holds no clause\<close>

text \<open>
  Claim C4, as amended. In mcrws3.py, an assert call in which the normalizer finds no
  clause in the backend's answer fails with the error \<^verbatim>\<open>LLM failed to generate valid
  Prolog code.\<close> (a \<^verbatim>\<open>ProviderError\<close>, the translation failure of the code); a call that
  succeeds reports at least one translated clause; and a call that fails, for whatever
  reason, leaves the stored sessions as they were and saves nothing. In mcrws1.py and
  mcrws2.py the same situation is a success: the call returns an empty list of added
  clauses and the unchanged text, and likewise stores nothing.
\<close>

theorem assert_without_clauses:
  "(files w session_id = Some s
      \<and> run_prompt_chain pm3 gen ''INTENT_CLASSIFIER'' [(''text'', KStr text)] w = (Inr i, w1)
      \<and> run_prompt_chain pm3 gen
            (if contains ''RULE'' (upper i) then ''NL_TO_RULES'' else ''NL_TO_FACTS'')
            [(''text'', KStr text), (''schema'', KList (get_kb_schema_ws3 (knowledgeBase s)))] w1
          = (Inr t, w2)
      \<and> extract_prolog_ws3 t = [] \<longrightarrow>
        assert_into_session_ws3 pm3 gen now session_id text w
          = (Inl (ProviderError ''LLM failed to generate valid Prolog code.''), w2)
        \<and> files w2 = files w \<and> writes w2 = writes w)
   \<and> (assert_into_session_ws3 pm3 gen now session_id text w = (Inr resp3, w') \<longrightarrow>
        translatedProlog resp3 \<noteq> [])
   \<and> (assert_into_session_ws3 pm3 gen now session_id text w = (Inl e, w') \<longrightarrow>
        files w' = files w \<and> writes w' = writes w)
   \<and> (files w session_id = Some s
      \<and> generate gen w (pm ''NL_TO_RULES'' [(''text'', KStr text)]) = (Inr t, w1)
      \<and> extract_prolog_ws1 t = [] \<longrightarrow>
        assert_into_session_ws1 pm gen now session_id text w
          = (Inr \<lparr>addedFacts = [], knowledgeBase_resp = knowledgeBase s\<rparr>, w1)
        \<and> files w1 = files w \<and> writes w1 = writes w)
   \<and> (files w session_id = Some s
      \<and> generate gen w (pm ''NL_TO_RULES''
            [(''text'', KStr text), (''schema'', KList (get_kb_schema_ws2 (knowledgeBase s)))])
          = (Inr t, w1)
      \<and> extract_prolog_ws2 t = [] \<longrightarrow>
        assert_into_session_ws2 pm gen now session_id text w
          = (Inr \<lparr>addedFacts = [], knowledgeBase_resp = knowledgeBase s, translatedProlog = []\<rparr>, w1)
        \<and> files w1 = files w \<and> writes w1 = writes w)"
proof (intro conjI impI)
  assume a: "files w session_id = Some s
      \<and> run_prompt_chain pm3 gen ''INTENT_CLASSIFIER'' [(''text'', KStr text)] w = (Inr i, w1)
      \<and> run_prompt_chain pm3 gen
            (if contains ''RULE'' (upper i) then ''NL_TO_RULES'' else ''NL_TO_FACTS'')
            [(''text'', KStr text), (''schema'', KList (get_kb_schema_ws3 (knowledgeBase s)))] w1
          = (Inr t, w2)
      \<and> extract_prolog_ws3 t = []"
  then show "assert_into_session_ws3 pm3 gen now session_id text w
          = (Inl (ProviderError ''LLM failed to generate valid Prolog code.''), w2)"
    by (auto simp: assert_into_session_ws3_def get_session_def no_valid_prolog_def)
  from a run_prompt_chain_frame [of pm3 gen "''INTENT_CLASSIFIER''" "[(''text'', KStr text)]" w "Inr i" w1]
    run_prompt_chain_frame [of pm3 gen _ _ w1 "Inr t" w2]
  show "files w2 = files w" and "writes w2 = writes w" by auto
next
  assume "assert_into_session_ws3 pm3 gen now session_id text w = (Inr resp3, w')"
  then show "translatedProlog resp3 \<noteq> []" by (rule assert_ws3_success)
next
  assume a: "assert_into_session_ws3 pm3 gen now session_id text w = (Inl e, w')"
  from assert_ws3_failure [OF a] show "files w' = files w" and "writes w' = writes w" by simp_all
next
  assume a: "files w session_id = Some s
      \<and> generate gen w (pm ''NL_TO_RULES'' [(''text'', KStr text)]) = (Inr t, w1)
      \<and> extract_prolog_ws1 t = []"
  then show "assert_into_session_ws1 pm gen now session_id text w
          = (Inr \<lparr>addedFacts = [], knowledgeBase_resp = knowledgeBase s\<rparr>, w1)"
    by (simp add: assert_into_session_ws1_def get_session_def added_ws1_def store_added_Nil)
  from a generate_frame show "files w1 = files w" and "writes w1 = writes w" by blast+
next
  assume a: "files w session_id = Some s
      \<and> generate gen w (pm ''NL_TO_RULES''
            [(''text'', KStr text), (''schema'', KList (get_kb_schema_ws2 (knowledgeBase s)))])
          = (Inr t, w1)
      \<and> extract_prolog_ws2 t = []"
  then show "assert_into_session_ws2 pm gen now session_id text w
          = (Inr \<lparr>addedFacts = [], knowledgeBase_resp = knowledgeBase s, translatedProlog = []\<rparr>, w1)"
    by (simp add: assert_into_session_ws2_def get_session_def added_ws1_def store_added_Nil)
  from a generate_frame show "files w1 = files w" and "writes w1 = writes w" by blast+
qed

text \<open>
  The theorem at a backend that answers the classification with \<^verbatim>\<open>FACT\<close> and the
  translation with the prose \<^verbatim>\<open>I cannot translate this.\<close>, on the stored text \<^verbatim>\<open>a(b).\<close>.
\<close>

theorem assert_without_clauses_witness:
  "assert_into_session_ws3 one_variant scripted ''t1'' ''s1'' ''Hm.''
      (world0 ''a(b).'' [Inr ''FACT'', Inr ''I cannot translate this.''])
     = (Inl (ProviderError ''LLM failed to generate valid Prolog code.''), world0 ''a(b).'' [])"
proof -
  let ?w = "world0 ''a(b).'' [Inr ''FACT'', Inr ''I cannot translate this.'' :: error + string]"
  let ?w1 = "world0 ''a(b).'' [Inr ''I cannot translate this.'' :: error + string]"
  let ?w2 = "world0 ''a(b).'' ([] :: (error + string) list)"
  have f: "files ?w ''s1'' = Some (session0 ''a(b).'')" by (simp add: world0_def)
  have s: "strip ''FACT'' = ''FACT''" "strip ''I cannot translate this.'' = ''I cannot translate this.''"
    by code_simp+
  have c1: "run_prompt_chain one_variant scripted ''INTENT_CLASSIFIER'' [(''text'', KStr ''Hm.'')] ?w
      = (Inr ''FACT'', ?w1)"
    by (simp add: run_prompt_chain_def one_variant_def generate_def scripted_def world0_def s)
  have u: "contains ''RULE'' (upper ''FACT'') = False" by code_simp
  have c2: "run_prompt_chain one_variant scripted ''NL_TO_FACTS''
      [(''text'', KStr ''Hm.''), (''schema'', KList (get_kb_schema_ws3 (knowledgeBase (session0 ''a(b).''))))] ?w1
      = (Inr ''I cannot translate this.'', ?w2)"
    by (simp add: run_prompt_chain_def one_variant_def generate_def scripted_def world0_def s)
  have e: "extract_prolog_ws3 ''I cannot translate this.'' = []" by code_simp
  note th = assert_without_clauses [of ?w "''s1''" "session0 ''a(b).''" one_variant scripted "''Hm.''"
      "''FACT''" ?w1 "''I cannot translate this.''" ?w2 "''t1''", THEN conjunct1, unfolded u if_False]
  from th f c1 c2 e show ?thesis by simp
qed

text \<open>
  The claim as it was stated fails on mcrws1.py and on mcrws2.py: the backend answers
  with a comment only, the normalizer finds no clause, and the call succeeds with an
  empty list of added clauses.
\<close>

theorem assert_ws1_succeeds_without_clauses:
  "extract_prolog_ws1 ''% nothing to add'' = []
   \<and> fst (assert_into_session_ws1 task_name scripted ''t1'' ''s1'' ''Hm.''
            (world0 ''a(b).'' [Inr ''% nothing to add'']))
       = Inr \<lparr>addedFacts = [], knowledgeBase_resp = ''a(b).''\<rparr>
   \<and> fst (assert_into_session_ws2 task_name scripted ''t1'' ''s1'' ''Hm.''
            (world0 ''a(b).'' [Inr ''% nothing to add'']))
       = Inr \<lparr>addedFacts = [], knowledgeBase_resp = ''a(b).'', translatedProlog = []\<rparr>"
  by code_simp

subsection \<open>C5: deduplication and appending\<close>

lemma stored_after_assert:
  assumes "store_added w1 now s added = (kb, w')" and "files w1 = files w"
    and "files w (sessionId s) = Some s"
  shows "\<exists>s'. files w' (sessionId s) = Some s' \<and> knowledgeBase s' = kb \<and> sessionId s' = sessionId s"
    and "kb = (if added \<noteq> [] then appended_kb (knowledgeBase s) added else knowledgeBase s)"
  using assms by (auto simp: store_added_def save_session_def split: if_splits)

lemma assert_ws3_twice:
  assumes first: "assert_into_session_ws3 pm gen now session_id text w = (Inr r1, w1)"
    and s: "files w session_id = Some s" and sid: "sessionId s = session_id"
    and kb: "lstrip (knowledgeBase s) = knowledgeBase s"
    and u: "\<forall>x\<in>set (translatedProlog r1). unbroken x"
    and second: "assert_into_session_ws3 pm gen now2 session_id text2 w1 = (Inr r2, w2)"
    and same: "translatedProlog r2 = translatedProlog r1"
  shows "addedFacts r2 = [] \<and> knowledgeBase_resp r2 = knowledgeBase_resp r1
         \<and> files w2 = files w1 \<and> writes w2 = writes w1"
proof -
  from first obtain sa i wa t wb where sa: "files w session_id = Some sa"
    and c1: "run_prompt_chain pm gen ''INTENT_CLASSIFIER'' [(''text'', KStr text)] w = (Inr i, wa)"
    and c2: "run_prompt_chain pm gen (if intent r1 = ''RULE'' then ''NL_TO_RULES'' else ''NL_TO_FACTS'')
           [(''text'', KStr text), (''schema'', KList (get_kb_schema_ws3 (knowledgeBase sa)))] wa
         = (Inr t, wb)"
    and tp: "translatedProlog r1 = extract_prolog_ws3 t"
    and ad: "addedFacts r1 = added_ws3 (knowledgeBase sa) (translatedProlog r1)"
    and st: "store_added wb now sa (addedFacts r1) = (knowledgeBase_resp r1, w1)"
    by (auto elim: assert_ws3_success)
  from s sa have e: "sa = s" by simp
  from run_prompt_chain_frame [OF c1] run_prompt_chain_frame [OF c2]
  have fb: "files wb = files w" by simp
  from stored_after_assert [OF st [unfolded e] fb] s sid
  obtain s1 where s1: "files w1 session_id = Some s1"
    and k1: "knowledgeBase s1 = knowledgeBase_resp r1"
    and kr: "knowledgeBase_resp r1
             = (if addedFacts r1 \<noteq> [] then appended_kb (knowledgeBase s) (addedFacts r1)
                else knowledgeBase s)"
    by auto
  from second obtain sc i2 wc t2 wd where sc: "files w1 session_id = Some sc"
    and d1: "run_prompt_chain pm gen ''INTENT_CLASSIFIER'' [(''text'', KStr text2)] w1 = (Inr i2, wc)"
    and d2: "run_prompt_chain pm gen (if intent r2 = ''RULE'' then ''NL_TO_RULES'' else ''NL_TO_FACTS'')
           [(''text'', KStr text2), (''schema'', KList (get_kb_schema_ws3 (knowledgeBase sc)))] wc
         = (Inr t2, wd)"
    and ad2: "addedFacts r2 = added_ws3 (knowledgeBase sc) (translatedProlog r2)"
    and st2: "store_added wd now2 sc (addedFacts r2) = (knowledgeBase_resp r2, w2)"
    by (auto elim: assert_ws3_success)
  from s1 sc have e2: "sc = s1" by simp
  from tp u extract_prolog_ws3_trimmed [of t]
  have tu: "\<forall>c\<in>set (translatedProlog r1). trimmed c \<and> unbroken c" by simp
  from kr have kr': "knowledgeBase_resp r1
      = (if added_ws3 (knowledgeBase s) (translatedProlog r1) \<noteq> []
         then appended_kb (knowledgeBase s) (added_ws3 (knowledgeBase s) (translatedProlog r1))
         else knowledgeBase s)"
    unfolding ad [unfolded e] .
  have "added_ws3 (knowledgeBase_resp r1) (translatedProlog r1) = []"
    unfolding kr' by (rule added_ws3_again [OF kb tu])
  with ad2 e2 k1 same have n: "addedFacts r2 = []" by simp
  with st2 e2 k1 have "knowledgeBase_resp r2 = knowledgeBase_resp r1" and "w2 = wd"
    by (simp_all add: store_added_Nil)
  with n run_prompt_chain_frame [OF d1] run_prompt_chain_frame [OF d2] show ?thesis by simp
qed

text \<open>
  Claim C5 at two assert calls of mcrws3.py on the same input. The claim: a clause whose
  trimmed text is already a line of the knowledge base is not added again, and a second
  assert call, for which the backend gives the same clauses, adds nothing and leaves the
  text unchanged. The session \<^verbatim>\<open>s1\<close> has an empty knowledge base; the backend answers both
  calls with \<^verbatim>\<open>FACT\<close> and with one clause written over two lines, \<^verbatim>\<open>likes(alice,\<close> and
  \<^verbatim>\<open>bob).\<close>, which the pattern of the normalizer matches as one clause. The first call
  stores the clause, as two lines of the text. The second call compares the clause with
  the lines of the text one by one, does not find it, adds it again and changes the text.
  For clauses without a line break the second call adds nothing (lemma
  \<open>assert_ws3_twice\<close>).
\<close>

theorem assert_twice_adds_broken_clause_again:
  "fst (assert_into_session_ws3 one_variant scripted ''t1'' ''s1'' ''Alice likes Bob.''
          (world0 [] [Inr ''FACT'', Inr (''likes(alice,'' @ [LF] @ ''bob).''),
                       Inr ''FACT'', Inr (''likes(alice,'' @ [LF] @ ''bob).'')]))
     = Inr \<lparr>addedFacts = [''likes(alice,'' @ [LF] @ ''bob).''],
            knowledgeBase_resp = ''likes(alice,'' @ [LF] @ ''bob).'',
            translatedProlog = [''likes(alice,'' @ [LF] @ ''bob).''], intent = ''FACT''\<rparr>
   \<and> fst (assert_into_session_ws3 one_variant scripted ''t2'' ''s1'' ''Alice likes Bob.''
          (snd (assert_into_session_ws3 one_variant scripted ''t1'' ''s1'' ''Alice likes Bob.''
             (world0 [] [Inr ''FACT'', Inr (''likes(alice,'' @ [LF] @ ''bob).''),
                          Inr ''FACT'', Inr (''likes(alice,'' @ [LF] @ ''bob).'')]))))
     = Inr \<lparr>addedFacts = [''likes(alice,'' @ [LF] @ ''bob).''],
            knowledgeBase_resp = ''likes(alice,'' @ [LF] @ ''bob).'' @ [LF]
                                 @ ''likes(alice,'' @ [LF] @ ''bob).'',
            translatedProlog = [''likes(alice,'' @ [LF] @ ''bob).''], intent = ''FACT''\<rparr>"
  by code_simp

subsection \<open>C6: the arity of a recorded signature\<close>

lemma valid_name_chars: "valid_name name \<Longrightarrow> x \<in> set name \<Longrightarrow> ident_char x"
  by (cases name) (auto simp: valid_name_def is_lower_az_def ident_char_def)

lemma ident_not_punct: "ident_char x \<Longrightarrow> x \<noteq> CHR ''('' \<and> x \<noteq> CHR '',''"
  by (auto simp: ident_char_def)

lemma predicate_match_name_paren:
  assumes "match_name_paren line = Some (name, r)"
  shows "predicate_match line = Some name"
proof -
  from assms have v: "valid_name name" and l: "line = name @ ''('' @ r"
    by (simp_all add: match_name_paren_iff)
  from v obtain c cs where n: "name = c # cs" and c: "is_lower_az c"
    and i: "\<And>x. x \<in> set cs \<Longrightarrow> ident_char x"
    by (cases name) (auto simp: valid_name_def)
  from i have t: "takeWhile ident_char (cs @ CHR ''('' # r) = cs"
    by (simp add: takeWhile_append2 paren_not_ident)
  from i have d: "dropWhile ident_char (cs @ CHR ''('' # r) = CHR ''('' # r"
    by (simp add: dropWhile_append2 paren_not_ident)
  have s: "\<not> isspace (CHR ''('')" by (simp add: isspace_def)
  show ?thesis using c s by (simp add: predicate_match_def l n t d)
qed

lemma schema_ws3_records:
  assumes "line \<in> set (schema_lines kb)" and "match_name_paren line = Some (name, r)"
  shows "name @ ''/'' @ str_nat (arity_ws3 (rule_head line)) \<in> set (get_kb_schema_ws3 kb)"
proof -
  from predicate_match_name_paren [OF assms(2)]
  have "name @ ''/'' @ str_nat (arity_ws3 (rule_head line)) \<in> set (line_items_ws3 line)"
    by (simp add: line_items_ws3_def signature_ws3_def)
  with assms(1) have "name @ ''/'' @ str_nat (arity_ws3 (rule_head line))
      \<in> (\<Union>l\<in>set (schema_lines kb). set (line_items_ws3 l))" by (rule UN_I)
  also have "(\<Union>l\<in>set (schema_lines kb). set (line_items_ws3 l)) = set (get_kb_schema_ws3 kb)"
    unfolding get_kb_schema_ws3_def by simp
  finally show ?thesis .
qed

lemma schema_ws2_records:
  assumes "line \<in> set (schema_lines kb)" and "match_name_paren line = Some (name, r)"
  shows "name @ ''/'' @ str_int (arity_ws2 line) \<in> set (get_kb_schema_ws2 kb)"
proof -
  from assms(2) have g: "signature_ws2 line = Some (name @ ''/'' @ str_int (arity_ws2 line))"
    by (simp add: signature_ws2_def)
  from assms(1) g have "line \<in> set (filter (\<lambda>x. signature_ws2 x \<noteq> None) (schema_lines kb))"
    by simp
  then have "the (signature_ws2 line) \<in> set (List.map_filter signature_ws2 (schema_lines kb))"
    unfolding map_filter_def set_map o_def by (rule imageI)
  with g have "name @ ''/'' @ str_int (arity_ws2 line)
      \<in> set (List.map_filter signature_ws2 (schema_lines kb))" by simp
  then show ?thesis unfolding get_kb_schema_ws2_def by simp
qed

lemma contains_parens_skip: "CHR ''('' \<notin> set p \<Longrightarrow> contains ''()'' (p @ s) = contains ''()'' s"
  by (induction p) (auto simp: startswith_def)

lemma contains_parens_none: "CHR ''('' \<notin> set s \<Longrightarrow> \<not> contains ''()'' s"
  by (induction s) (auto simp: startswith_def)

lemma upto_close_flat:
  "\<forall>x\<in>set args. x \<noteq> CHR ''('' \<and> x \<noteq> CHR '')'' \<Longrightarrow> upto_close 0 (args @ CHR '')'' # rest) = args"
  by (induction args) simp_all

lemma split_rule_acc_none: "\<not> contains '':-'' s \<Longrightarrow> split_rule_acc cur s = [cur @ s]"
  by (induction s arbitrary: cur) (auto simp: startswith_def)

lemma split_rule_acc_first:
  "\<not> contains '':-'' h \<Longrightarrow> split_rule_acc cur (h @ '':-'' @ b) = (cur @ h) # split_rule_acc [] b"
proof (induction h arbitrary: cur)
  case Nil
  then show ?case by (simp add: startswith_def)
next
  case (Cons c h)
  from Cons.prems have n: "\<not> contains '':-'' h" and s: "\<not> startswith (c # h) '':-''" by simp_all
  from s have "\<not> (c = CHR '':'' \<and> startswith (h @ '':-'' @ b) ''-'')"
    by (cases h) (auto simp: startswith_def)
  with Cons.IH [OF n, of "cur @ [c]"] show ?case by simp
qed

lemma flat_head_parts:
  assumes v: "valid_name name"
    and a: "\<forall>x\<in>set args. x \<noteq> CHR ''('' \<and> x \<noteq> CHR '')''"
    and r: "\<forall>x\<in>set rest. x \<noteq> CHR ''('' \<and> x \<noteq> CHR '',''"
  shows "outer_group (name @ ''('' @ args @ '')'' @ rest) = args"
    and "count_char CHR '','' (name @ ''('' @ args @ '')'' @ rest) = count_char CHR '','' args"
    and "contains ''()'' (name @ ''('' @ args @ '')'' @ rest) \<longleftrightarrow> args = []"
proof -
  from v have n: "\<And>x. x \<in> set name \<Longrightarrow> x \<noteq> CHR ''('' \<and> x \<noteq> CHR '',''"
    using valid_name_chars ident_not_punct by blast
  from n have "dropWhile (\<lambda>c. c \<noteq> CHR ''('') (name @ CHR ''('' # args @ CHR '')'' # rest)
      = CHR ''('' # args @ CHR '')'' # rest"
    by (simp add: dropWhile_append2)
  then show "outer_group (name @ ''('' @ args @ '')'' @ rest) = args"
    using upto_close_flat [OF a] by (simp add: outer_group_def)
  from n have "filter (\<lambda>c. c = CHR '','') name = []" by (auto simp: filter_empty_conv)
  moreover from r have "filter (\<lambda>c. c = CHR '','') rest = []" by (auto simp: filter_empty_conv)
  ultimately show "count_char CHR '','' (name @ ''('' @ args @ '')'' @ rest) = count_char CHR '','' args"
    by (simp add: count_char_def)
  from n have o: "CHR ''('' \<notin> set name" by blast
  from a r have "CHR ''('' \<notin> set (args @ '')'' @ rest)" by auto
  then have "\<not> contains ''()'' (args @ '')'' @ rest)" by (rule contains_parens_none)
  with a have "contains ''()'' (''('' @ args @ '')'' @ rest) \<longleftrightarrow> args = []"
    by (cases args) (auto simp: startswith_def)
  with contains_parens_skip [OF o, of "''('' @ args @ '')'' @ rest"]
  show "contains ''()'' (name @ ''('' @ args @ '')'' @ rest) \<longleftrightarrow> args = []" by simp
qed

lemma contains_rule_sep: "contains '':-'' (a @ '':-'' @ b)"
  by (induction a) (simp_all add: startswith_def)

lemma arity_ws2_fact:
  assumes "\<not> contains '':-'' h" and "CHR ''('' \<in> set h" and "CHR '')'' \<in> set h"
  shows "arity_ws2 h = int (count_char CHR '','' h) + 1"
  using assms by (simp add: arity_ws2_def)

lemma arity_ws2_rule:
  assumes h: "\<not> contains '':-'' h" and b: "\<not> contains '':-'' b"
    and o: "CHR ''('' \<in> set h" and c: "CHR '')'' \<in> set h"
  shows "arity_ws2 (h @ '':-'' @ b) = int (count_char CHR '','' h) + 1"
proof -
  from split_rule_acc_first [OF h, of "[]" b] split_rule_acc_none [OF b, of "[]"]
  have "split_rule (h @ '':-'' @ b) = [h, b]" by (simp add: split_rule_def)
  then have "split_rule (h @ '':-'' @ b) ! 1 = b" by simp
  moreover have "count_char CHR '','' (h @ '':-'' @ b)
      = count_char CHR '','' h + count_char CHR '','' b" by (simp add: count_char_def)
  moreover from o c have "CHR ''('' \<in> set (h @ '':-'' @ b) \<and> CHR '')'' \<in> set (h @ '':-'' @ b)"
    by simp
  ultimately show ?thesis
    using contains_rule_sep [of h b] unfolding arity_ws2_def Let_def by simp
qed

text \<open>
  Claim C6, as amended. For every line of the text that the extractor works on and whose
  beginning is a lowercase identifier immediately followed by \<^verbatim>\<open>(\<close>, mcrws3.py records
  the name with an arity that it computes from the head, the text before the first rule
  separator \<^verbatim>\<open>:-\<close> (the whole line when there is none): 0 when \<^verbatim>\<open>()\<close> occurs in the head,
  and otherwise the commas of the whole head plus one. No parenthesis group is taken out
  of the head. On a flat head, that is a name, one parenthesis group without a
  parenthesis inside, and no comma and no \<^verbatim>\<open>(\<close> after the group, this is the arity of the
  specification: the commas of the group plus one, and 0 for an empty group. mcrws2.py
  records the name with an arity that it computes from the whole line: for a line with
  both parentheses in its head, the commas of the line plus one when there is no rule
  separator, and the commas of the head plus one when there is one rule separator. On a
  flat line without a rule separator that is the arity of the specification but for the
  empty group, where it is 1.
\<close>

theorem schema_signature_arity:
  "(line \<in> set (schema_lines kb) \<and> match_name_paren line = Some (name, r) \<longrightarrow>
      name @ ''/'' @ str_nat (if contains ''()'' (rule_head line) then 0
                              else count_char CHR '','' (rule_head line) + 1)
        \<in> set (get_kb_schema_ws3 kb)
      \<and> name @ ''/'' @ str_int (arity_ws2 line) \<in> set (get_kb_schema_ws2 kb))
   \<and> (\<not> contains '':-'' h \<longrightarrow>
        rule_head (h @ '':-'' @ b) = h \<and> rule_head h = h
        \<and> (CHR ''('' \<in> set h \<and> CHR '')'' \<in> set h \<longrightarrow>
             arity_ws2 h = int (count_char CHR '','' h) + 1
             \<and> (\<not> contains '':-'' b \<longrightarrow>
                  arity_ws2 (h @ '':-'' @ b) = int (count_char CHR '','' h) + 1)))
   \<and> (valid_name p \<and> (\<forall>x\<in>set args. x \<noteq> CHR ''('' \<and> x \<noteq> CHR '')'')
        \<and> (\<forall>x\<in>set rest. x \<noteq> CHR ''('' \<and> x \<noteq> CHR '','') \<longrightarrow>
      arity_ws3 (p @ ''('' @ args @ '')'' @ rest) = spec_arity (p @ ''('' @ args @ '')'' @ rest)
      \<and> spec_arity (p @ ''('' @ args @ '')'' @ rest)
          = (if args = [] then 0 else count_char CHR '','' args + 1)
      \<and> (\<not> contains '':-'' (p @ ''('' @ args @ '')'' @ rest) \<longrightarrow>
           arity_ws2 (p @ ''('' @ args @ '')'' @ rest)
             = (if args = [] then 1 else int (spec_arity (p @ ''('' @ args @ '')'' @ rest)))))"
proof (intro conjI impI)
  assume "line \<in> set (schema_lines kb) \<and> match_name_paren line = Some (name, r)"
  then have l: "line \<in> set (schema_lines kb)" and m: "match_name_paren line = Some (name, r)"
    by blast+
  show "name @ ''/'' @ str_nat (if contains ''()'' (rule_head line) then 0
                              else count_char CHR '','' (rule_head line) + 1)
        \<in> set (get_kb_schema_ws3 kb)"
    using schema_ws3_records [OF l m] unfolding arity_ws3_def .
  show "name @ ''/'' @ str_int (arity_ws2 line) \<in> set (get_kb_schema_ws2 kb)"
    by (rule schema_ws2_records [OF l m])
next
  assume n: "\<not> contains '':-'' h"
  show "rule_head (h @ '':-'' @ b) = h"
    using split_rule_acc_first [OF n, of "[]" b] by (simp add: rule_head_def split_rule_def)
  show "rule_head h = h"
    using split_rule_acc_none [OF n, of "[]"] by (simp add: rule_head_def split_rule_def)
  assume "CHR ''('' \<in> set h \<and> CHR '')'' \<in> set h"
  then have o: "CHR ''('' \<in> set h" and c: "CHR '')'' \<in> set h" by blast+
  show "arity_ws2 h = int (count_char CHR '','' h) + 1" by (rule arity_ws2_fact [OF n o c])
  assume nb: "\<not> contains '':-'' b"
  show "arity_ws2 (h @ '':-'' @ b) = int (count_char CHR '','' h) + 1"
    by (rule arity_ws2_rule [OF n nb o c])
next
  assume f: "valid_name p \<and> (\<forall>x\<in>set args. x \<noteq> CHR ''('' \<and> x \<noteq> CHR '')'')
        \<and> (\<forall>x\<in>set rest. x \<noteq> CHR ''('' \<and> x \<noteq> CHR '','')"
  then have v: "valid_name p" and a: "\<forall>x\<in>set args. x \<noteq> CHR ''('' \<and> x \<noteq> CHR '')''"
    and r: "\<forall>x\<in>set rest. x \<noteq> CHR ''('' \<and> x \<noteq> CHR '',''" by blast+
  note parts = flat_head_parts [OF v a r]
  show 3: "arity_ws3 (p @ ''('' @ args @ '')'' @ rest) = spec_arity (p @ ''('' @ args @ '')'' @ rest)"
    unfolding arity_ws3_def spec_arity_def parts by simp
  show s: "spec_arity (p @ ''('' @ args @ '')'' @ rest)
      = (if args = [] then 0 else count_char CHR '','' args + 1)"
    unfolding spec_arity_def parts by simp
  assume n: "\<not> contains '':-'' (p @ ''('' @ args @ '')'' @ rest)"
  have "arity_ws2 (p @ ''('' @ args @ '')'' @ rest) = int (count_char CHR '','' args) + 1"
    unfolding arity_ws2_def parts(2) using n by simp
  then show "arity_ws2 (p @ ''('' @ args @ '')'' @ rest)
      = (if args = [] then 1 else int (spec_arity (p @ ''('' @ args @ '')'' @ rest)))"
    unfolding s by (simp add: count_char_def)
qed

text \<open>
  The theorem at a knowledge base of two lines, the fact \<^verbatim>\<open>parent(tom, bob).\<close> and the rule
  \<^verbatim>\<open>grand(X, Z) :- parent(X, Y), parent(Y, Z).\<close>: both revisions record \<^verbatim>\<open>grand/2\<close> for the
  rule, whose head is \<^verbatim>\<open>grand(X, Z)\<close> and a blank, a flat head with one comma in its group.
\<close>

theorem schema_signature_arity_witness:
  "get_kb_schema_ws3 (''parent(tom, bob).'' @ [LF] @ ''grand(X, Z) :- parent(X, Y), parent(Y, Z).'')
     = [''bob'', ''grand/2'', ''parent/2'', ''tom'']
   \<and> get_kb_schema_ws2 (''parent(tom, bob).'' @ [LF] @ ''grand(X, Z) :- parent(X, Y), parent(Y, Z).'')
     = [''grand/2'', ''parent/2'']
   \<and> ''grand/2'' \<in> set (get_kb_schema_ws3
        (''parent(tom, bob).'' @ [LF] @ ''grand(X, Z) :- parent(X, Y), parent(Y, Z).''))
   \<and> ''grand/2'' \<in> set (get_kb_schema_ws2
        (''parent(tom, bob).'' @ [LF] @ ''grand(X, Z) :- parent(X, Y), parent(Y, Z).''))
   \<and> rule_head ''grand(X, Z) :- parent(X, Y), parent(Y, Z).'' = ''grand(X, Z) ''
   \<and> arity_ws2 ''grand(X, Z) :- parent(X, Y), parent(Y, Z).'' = 2
   \<and> arity_ws3 ''grand(X, Z) '' = 2 \<and> spec_arity ''grand(X, Z) '' = 2"
proof -
  let ?kb = "''parent(tom, bob).'' @ [LF] @ ''grand(X, Z) :- parent(X, Y), parent(Y, Z).''"
  let ?line = "''grand(X, Z) :- parent(X, Y), parent(Y, Z).''"
  let ?h = "''grand(X, Z) ''"
  let ?b = "'' parent(X, Y), parent(Y, Z).''"
  have e3: "get_kb_schema_ws3 ?kb = [''bob'', ''grand/2'', ''parent/2'', ''tom'']" by code_simp
  have e2: "get_kb_schema_ws2 ?kb = [''grand/2'', ''parent/2'']" by code_simp
  have l: "?line \<in> set (schema_lines ?kb)" by code_simp
  have m: "match_name_paren ?line = Some (''grand'', ''X, Z) :- parent(X, Y), parent(Y, Z).'')"
    by code_simp
  have nh: "\<not> contains '':-'' ?h" and nb: "\<not> contains '':-'' ?b" by code_simp+
  have pa: "CHR ''('' \<in> set ?h \<and> CHR '')'' \<in> set ?h" by simp
  have v: "valid_name ''grand''" by code_simp
  have fl: "(\<forall>x\<in>set ''X, Z''. x \<noteq> CHR ''('' \<and> x \<noteq> CHR '')'')
      \<and> (\<forall>x\<in>set '' ''. x \<noteq> CHR ''('' \<and> x \<noteq> CHR '','')" by simp
  have c: "count_char CHR '','' ?h = 1" "count_char CHR '','' ''X, Z'' = 1" by code_simp+
  note th = schema_signature_arity [of ?line ?kb "''grand''"
      "''X, Z) :- parent(X, Y), parent(Y, Z).''" ?h ?b "''grand''" "''X, Z''" "'' ''"]
  from th nh have rh: "rule_head ?line = ?h" by simp
  from th nh nb pa c have a2: "arity_ws2 ?line = 2" by simp
  from th v fl c have a3: "arity_ws3 ?h = 2 \<and> spec_arity ?h = 2" by simp
  from th l m have "name_of_line \<in> set (get_kb_schema_ws3 ?kb)
      \<and> ''grand/'' @ str_int (arity_ws2 ?line) \<in> set (get_kb_schema_ws2 ?kb)"
    if "name_of_line = ''grand/'' @ str_nat (if contains ''()'' (rule_head ?line) then 0
          else count_char CHR '','' (rule_head ?line) + 1)" for name_of_line
    using that by simp
  moreover have "''grand/'' @ str_nat (if contains ''()'' (rule_head ?line) then 0
          else count_char CHR '','' (rule_head ?line) + 1) = ''grand/2''"
    unfolding rh by code_simp
  moreover have "''grand/'' @ str_int (arity_ws2 ?line) = ''grand/2''"
    unfolding a2 by code_simp
  ultimately have mem: "''grand/2'' \<in> set (get_kb_schema_ws3 ?kb)
      \<and> ''grand/2'' \<in> set (get_kb_schema_ws2 ?kb)" by metis
  from e3 e2 mem rh a2 a3 show ?thesis by blast
qed

text \<open>
  The claim as it was stated fails. In mcrws3.py the fact \<^verbatim>\<open>f(g(),a).\<close>, whose outermost
  group has one comma, is recorded with arity 0, because \<^verbatim>\<open>()\<close> occurs in the head; the
  fact \<^verbatim>\<open>foo(a).\<close> followed by the comment \<^verbatim>\<open>% x, y\<close> is recorded with arity 2, because
  the comma of the comment is counted. In mcrws2.py the fact \<^verbatim>\<open>foo()\<close>, with an empty
  argument list, is recorded with arity 1.
\<close>

theorem schema_arity_counts_outside_group:
  "get_kb_schema_ws3 ''f(g(),a).'' = [''f/0'']
   \<and> rule_head ''f(g(),a).'' = ''f(g(),a).''
   \<and> outer_group ''f(g(),a).'' = ''g(),a''
   \<and> spec_arity ''f(g(),a).'' = 2
   \<and> get_kb_schema_ws3 ''foo(a). % x, y'' = [''a'', ''foo/2'']
   \<and> rule_head ''foo(a). % x, y'' = ''foo(a). % x, y''
   \<and> outer_group ''foo(a). % x, y'' = ''a''
   \<and> spec_arity ''foo(a). % x, y'' = 1
   \<and> get_kb_schema_ws2 ''foo()'' = [''foo/1'']
   \<and> outer_group ''foo()'' = []
   \<and> spec_arity ''foo()'' = 0"
  by code_simp

subsection \<open>C7: the prompt chain executor\<close>

lemma strip_Nil [simp]: "strip [] = []"
  by (simp add: strip_def lstrip_def rstrip_def)

lemma try_prompts_after_blanks:
  "blank_answers gen ps w = Some w1 \<Longrightarrow> try_prompts gen (ps @ qs) w = try_prompts gen qs w1"
proof (induction ps arbitrary: w)
  case Nil
  then show ?case by simp
next
  case (Cons p ps)
  obtain a w' where g: "generate gen w p = (a, w')" by (cases "generate gen w p")
  with Cons.prems obtain r where a: "a = Inr r" and r: "strip r = []"
    and b: "blank_answers gen ps w' = Some w1"
    by (cases a) (auto split: if_splits)
  from Cons.IH [OF b] g a r show ?case by simp
qed

lemma try_prompts_all_blank:
  "blank_answers gen ps w = Some w1 \<Longrightarrow> try_prompts gen ps w = (Inr None, w1)"
  using try_prompts_after_blanks [of gen ps w w1 "[]"] by simp

text \<open>
  Claim C7, as amended. The chain executor of mcrws3.py sends the variants of a task
  in their declared order. A variant answered with a blank text is passed over; the
  first answer that is not blank is returned at once, trimmed, and no later variant is
  sent. A failure of the backend on a variant is not absorbed: it ends the chain at
  once as the failure of the chain, and no later variant is sent. The chain's own
  error (\<^verbatim>\<open>LLM failed for ... after trying all n variants\<close>) is raised only after every
  variant was sent and answered with a blank text; a task without templates fails
  before anything is sent.
\<close>

theorem prompt_chain_order:
  "(pm task kw = [] \<longrightarrow> run_prompt_chain pm gen task kw w = (Inl (no_templates task), w))
   \<and> (pm task kw = ps @ p # qs \<and> blank_answers gen ps w = Some w1
        \<and> generate gen w1 p = (Inr r, w2) \<and> strip r \<noteq> [] \<longrightarrow>
      run_prompt_chain pm gen task kw w = (Inr (strip r), w2))
   \<and> (pm task kw = ps @ p # qs \<and> blank_answers gen ps w = Some w1
        \<and> generate gen w1 p = (Inl e, w2) \<longrightarrow>
      run_prompt_chain pm gen task kw w = (Inl e, w2))
   \<and> (pm task kw \<noteq> [] \<and> blank_answers gen (pm task kw) w = Some w1 \<longrightarrow>
      run_prompt_chain pm gen task kw w
        = (Inl (all_variants_failed task (length (pm task kw))), w1))"
proof (intro conjI impI)
  assume "pm task kw = []"
  then show "run_prompt_chain pm gen task kw w = (Inl (no_templates task), w)"
    by (simp add: run_prompt_chain_def)
next
  assume a: "pm task kw = ps @ p # qs \<and> blank_answers gen ps w = Some w1
        \<and> generate gen w1 p = (Inr r, w2) \<and> strip r \<noteq> []"
  then have "try_prompts gen (ps @ p # qs) w = try_prompts gen (p # qs) w1"
    by (simp add: try_prompts_after_blanks)
  also from a have "\<dots> = (Inr (Some (strip r)), w2)" by auto
  finally show "run_prompt_chain pm gen task kw w = (Inr (strip r), w2)"
    using a by (simp add: run_prompt_chain_def)
next
  assume a: "pm task kw = ps @ p # qs \<and> blank_answers gen ps w = Some w1
        \<and> generate gen w1 p = (Inl e, w2)"
  then have "try_prompts gen (ps @ p # qs) w = try_prompts gen (p # qs) w1"
    by (simp add: try_prompts_after_blanks)
  also from a have "\<dots> = (Inl e, w2)" by simp
  finally show "run_prompt_chain pm gen task kw w = (Inl e, w2)"
    using a by (simp add: run_prompt_chain_def)
next
  assume "pm task kw \<noteq> [] \<and> blank_answers gen (pm task kw) w = Some w1"
  then show "run_prompt_chain pm gen task kw w
        = (Inl (all_variants_failed task (length (pm task kw))), w1)"
    by (simp add: run_prompt_chain_def try_prompts_all_blank)
qed

text \<open>
  The theorem at a task with two variants and a backend that answers the first with
  blanks and the second with \<^verbatim>\<open>RULE\<close> between blanks; and at a backend that answers the
  first with blanks and fails on the second.
\<close>

theorem prompt_chain_order_witness:
  "run_prompt_chain two_variants scripted ''INTENT_CLASSIFIER'' [] (world0 [] [Inr ''  '', Inr '' RULE ''])
     = (Inr ''RULE'', world0 [] [])
   \<and> run_prompt_chain two_variants scripted ''INTENT_CLASSIFIER'' []
         (world0 [] [Inr ''  '', Inl (ProviderError ''Ollama request failed: no route'')])
     = (Inl (ProviderError ''Ollama request failed: no route''), world0 [] [])"
proof -
  let ?p1 = "''INTENT_CLASSIFIER (1)''" and ?p2 = "''INTENT_CLASSIFIER (2)''"
  have pm: "two_variants ''INTENT_CLASSIFIER'' [] = [?p1] @ ?p2 # []"
    by (simp add: two_variants_def)
  have s1: "strip ''  '' = []" and s2: "strip '' RULE '' = ''RULE''" by code_simp+
  have b: "blank_answers scripted [?p1] (world0 [] (Inr ''  '' # rest)) = Some (world0 [] rest)" for rest
    by (simp add: generate_def scripted_def world0_def s1)
  have g: "generate scripted (world0 [] [a]) ?p2 = (a, world0 [] [])" for a
    by (simp add: generate_def scripted_def world0_def)
  from prompt_chain_order [of two_variants "''INTENT_CLASSIFIER''" "[]" scripted
      "world0 [] [Inr ''  '', Inr '' RULE '']" "[?p1]" ?p2 "[]" "world0 [] [Inr '' RULE '']"
      "'' RULE ''" "world0 [] []"] pm b g s2
  have "run_prompt_chain two_variants scripted ''INTENT_CLASSIFIER'' [] (world0 [] [Inr ''  '', Inr '' RULE ''])
     = (Inr ''RULE'', world0 [] [])" by simp
  moreover
  from prompt_chain_order [of two_variants "''INTENT_CLASSIFIER''" "[]" scripted
      "world0 [] [Inr ''  '', Inl (ProviderError ''Ollama request failed: no route'')]" "[?p1]" ?p2 "[]"
      "world0 [] [Inl (ProviderError ''Ollama request failed: no route'')]"
      _ "world0 [] []" "ProviderError ''Ollama request failed: no route''"] pm b g
  have "run_prompt_chain two_variants scripted ''INTENT_CLASSIFIER'' []
         (world0 [] [Inr ''  '', Inl (ProviderError ''Ollama request failed: no route'')])
     = (Inl (ProviderError ''Ollama request failed: no route''), world0 [] [])" by simp
  ultimately show ?thesis by simp
qed

text \<open>
  The claim as it was stated fails: the backend fails on the first of two variants and
  would answer \<^verbatim>\<open>FACT\<close> to the second. The chain of mcrws3.py ends with the failure
  of the backend, and the answer \<^verbatim>\<open>FACT\<close> is still unplayed; the executor of the
  specification goes on to the second variant and returns \<^verbatim>\<open>FACT\<close>.
\<close>

theorem prompt_chain_backend_failure_propagates:
  "fst (run_prompt_chain two_variants scripted ''INTENT_CLASSIFIER'' []
          (world0 [] [Inl (ProviderError ''Ollama request failed: no route''), Inr ''FACT'']))
     = Inl (ProviderError ''Ollama request failed: no route'')
   \<and> llm (snd (run_prompt_chain two_variants scripted ''INTENT_CLASSIFIER'' []
          (world0 [] [Inl (ProviderError ''Ollama request failed: no route''), Inr ''FACT''])))
     = [Inr ''FACT'']
   \<and> fst (run_prompt_chain_spec two_variants scripted ''INTENT_CLASSIFIER'' []
          (world0 [] [Inl (ProviderError ''Ollama request failed: no route''), Inr ''FACT'']))
     = Inr ''FACT''"
  by code_simp

subsection \<open>C8: replacing the knowledge base\<close>

text \<open>
  Claim C8. The replace operation validates the whole proposed text with the engine
  (the lines of the text are loaded into a fresh knowledge base) before it commits.
  For a stored session and a text that the engine rejects, the operation fails with a
  \<^verbatim>\<open>ValidationError\<close> and the state is what it was: the stored text is unchanged and no
  save was made. For a text that the engine accepts, the session is saved with the new
  text. Whatever the call, the state changes only when validation succeeds.
\<close>

theorem replace_kb_validates_first:
  "(files w session_id = Some s \<and> kb_load eng (splitlines kb_text) = Some err \<longrightarrow>
      update_kb message eng now session_id kb_text w
        = (Inl (ValidationError (''KB validation failed: '' @ err)), w))
   \<and> (files w session_id = Some s \<and> kb_load eng (splitlines kb_text) = None \<longrightarrow>
      update_kb message eng now session_id kb_text w
        = (Inr message, save_session w now (s\<lparr>knowledgeBase := kb_text\<rparr>)))
   \<and> (snd (update_kb message eng now session_id kb_text w) \<noteq> w \<longrightarrow>
      validate eng kb_text = Valid \<and> kb_load eng (splitlines kb_text) = None)"
  by (auto simp: update_kb_def get_session_def validate_def split: option.splits)

text \<open>
  The theorem at the stored text \<^verbatim>\<open>a(b).\<close> and the proposed text \<^verbatim>\<open>a(b\<close>, which the
  stand-in engine rejects, and at the proposed text \<^verbatim>\<open>c(d).\<close>, which it accepts.
\<close>

theorem replace_kb_validates_first_witness:
  "update_kb ''Knowledge base updated successfully.'' toy_engine ''t1'' ''s1'' ''a(b'' (world0 ''a(b).'' ())
     = (Inl (ValidationError ''KB validation failed: syntax error''), world0 ''a(b).'' ())
   \<and> update_kb ''Knowledge base updated successfully.'' toy_engine ''t1'' ''s1'' ''c(d).'' (world0 ''a(b).'' ())
     = (Inr ''Knowledge base updated successfully.'',
        save_session (world0 ''a(b).'' ()) ''t1'' ((session0 ''a(b).'')\<lparr>knowledgeBase := ''c(d).''\<rparr>))"
proof -
  have f: "files (world0 ''a(b).'' ()) ''s1'' = Some (session0 ''a(b).'')"
    by (simp add: world0_def)
  have bad: "kb_load toy_engine (splitlines ''a(b'') = Some ''syntax error''" by code_simp
  have good: "kb_load toy_engine (splitlines ''c(d).'') = None" by code_simp
  from replace_kb_validates_first [of "world0 ''a(b).'' ()" "''s1''" "session0 ''a(b).''"
      toy_engine "''a(b''" "''syntax error''" "''Knowledge base updated successfully.''" "''t1''"]
    f bad
  have "update_kb ''Knowledge base updated successfully.'' toy_engine ''t1'' ''s1'' ''a(b'' (world0 ''a(b).'' ())
     = (Inl (ValidationError ''KB validation failed: syntax error''), world0 ''a(b).'' ())" by simp
  moreover
  from replace_kb_validates_first [of "world0 ''a(b).'' ()" "''s1''" "session0 ''a(b).''"
      toy_engine "''c(d).''" "''syntax error''" "''Knowledge base updated successfully.''" "''t1''"]
    f good
  have "update_kb ''Knowledge base updated successfully.'' toy_engine ''t1'' ''s1'' ''c(d).'' (world0 ''a(b).'' ())
     = (Inr ''Knowledge base updated successfully.'',
        save_session (world0 ''a(b).'' ()) ''t1'' ((session0 ''a(b).'')\<lparr>knowledgeBase := ''c(d).''\<rparr>))"
    by simp
  ultimately show ?thesis by simp
qed

subsection \<open>C9: the reasoning dispatcher\<close>

lemma guarded_query_Inr:
  "guarded_query seconds eng kb_str query_str = Inr v \<longleftrightarrow>
     kb_load eng (splitlines kb_str) = None \<and> parse_expr eng query_str = None
     \<and> (\<exists>ms. kb_query eng (splitlines kb_str) query_str = After ms (Inr v) \<and> ms \<le> seconds * 1000)"
  by (auto simp: guarded_query_def wait_for_def
      split: option.splits engine_run.splits awaited.splits sum.splits if_splits)

lemma guarded_query_timeout:
  assumes "kb_load eng (splitlines kb_str) = None" and "parse_expr eng query_str = None"
    and "kb_query eng (splitlines kb_str) query_str = Never
         \<or> (\<exists>ms r. kb_query eng (splitlines kb_str) query_str = After ms r \<and> seconds * 1000 < ms)"
  shows "guarded_query seconds eng kb_str query_str = Inl (timed_out seconds)"
  using assms by (auto simp: guarded_query_def wait_for_def)

text \<open>
  Claim C9. When the engine loads the knowledge base, parses the goal and returns
  \<^verbatim>\<open>None\<close> within the bound, the dispatcher returns the empty outcome \<^verbatim>\<open>[]\<close> and no
  error. When the evaluation never finishes or takes longer than the bound (5 seconds
  in mcrws1.py, 10 seconds in mcrws2.py and mcrws3.py), the dispatcher fails with the
  timeout error (a \<^verbatim>\<open>ProviderError\<close> with the message \<^verbatim>\<open>Reasoning query timed out after
  ...s.\<close>). A value that the dispatcher returns, the empty outcome included, always comes
  from an evaluation that finished within the bound: a timeout is never reported as an
  empty result.
\<close>

theorem dispatcher_none_and_timeout:
  "(kb_load eng (splitlines kb_str) = None \<and> parse_expr eng query_str = None
      \<and> kb_query eng (splitlines kb_str) query_str = After ms (Inr PNone) \<longrightarrow>
        (ms \<le> 5000 \<longrightarrow> query_ws1 eng kb_str query_str = Inr (PList []))
        \<and> (ms \<le> 10000 \<longrightarrow> query_ws2 eng kb_str query_str = Inr (PList [])
                           \<and> query_ws3 eng kb_str query_str = Inr (PList [])))
   \<and> (kb_load eng (splitlines kb_str) = None \<and> parse_expr eng query_str = None
      \<and> (kb_query eng (splitlines kb_str) query_str = Never
          \<or> (\<exists>r. kb_query eng (splitlines kb_str) query_str = After ms r \<and> 10000 < ms)) \<longrightarrow>
        query_ws1 eng kb_str query_str = Inl (ProviderError ''Reasoning query timed out after 5s.'')
        \<and> query_ws2 eng kb_str query_str = Inl (ProviderError ''Reasoning query timed out after 10s.'')
        \<and> query_ws3 eng kb_str query_str = Inl (ProviderError ''Reasoning query timed out after 10s.''))
   \<and> (kb_load eng (splitlines kb_str) = None \<and> parse_expr eng query_str = None
      \<and> (\<exists>r. kb_query eng (splitlines kb_str) query_str = After ms r \<and> 5000 < ms) \<longrightarrow>
        query_ws1 eng kb_str query_str = Inl (ProviderError ''Reasoning query timed out after 5s.''))
   \<and> (query_ws1 eng kb_str query_str = Inr v \<longrightarrow>
        (\<exists>t r. kb_query eng (splitlines kb_str) query_str = After t (Inr r) \<and> t \<le> 5000))
   \<and> (query_ws2 eng kb_str query_str = Inr v \<or> query_ws3 eng kb_str query_str = Inr v \<longrightarrow>
        (\<exists>t r. kb_query eng (splitlines kb_str) query_str = After t (Inr r) \<and> t \<le> 10000))"
proof -
  have t5: "timed_out 5 = ProviderError ''Reasoning query timed out after 5s.''"
    and t10: "timed_out 10 = ProviderError ''Reasoning query timed out after 10s.''"
    by code_simp+
  have "kb_query eng (splitlines kb_str) query_str = After ms (Inr PNone) \<Longrightarrow> ms \<le> seconds * 1000
     \<Longrightarrow> kb_load eng (splitlines kb_str) = None \<Longrightarrow> parse_expr eng query_str = None
     \<Longrightarrow> guarded_query seconds eng kb_str query_str = Inr PNone" for seconds
    by (simp add: guarded_query_Inr)
  from this [of 5] this [of 10]
  have a: "kb_load eng (splitlines kb_str) = None \<and> parse_expr eng query_str = None
      \<and> kb_query eng (splitlines kb_str) query_str = After ms (Inr PNone) \<longrightarrow>
        (ms \<le> 5000 \<longrightarrow> query_ws1 eng kb_str query_str = Inr (PList []))
        \<and> (ms \<le> 10000 \<longrightarrow> query_ws2 eng kb_str query_str = Inr (PList [])
                           \<and> query_ws3 eng kb_str query_str = Inr (PList []))"
    by (simp add: query_ws1_def query_ws2_def query_ws3_def)
  have b: "kb_load eng (splitlines kb_str) = None \<and> parse_expr eng query_str = None
      \<and> (kb_query eng (splitlines kb_str) query_str = Never
          \<or> (\<exists>r. kb_query eng (splitlines kb_str) query_str = After ms r \<and> 10000 < ms)) \<longrightarrow>
        query_ws1 eng kb_str query_str = Inl (ProviderError ''Reasoning query timed out after 5s.'')
        \<and> query_ws2 eng kb_str query_str = Inl (ProviderError ''Reasoning query timed out after 10s.'')
        \<and> query_ws3 eng kb_str query_str = Inl (ProviderError ''Reasoning query timed out after 10s.'')"
    using guarded_query_timeout [of eng kb_str query_str 5]
      guarded_query_timeout [of eng kb_str query_str 10]
    by (auto simp: query_ws1_def query_ws2_def query_ws3_def t5 t10)
  have c: "kb_load eng (splitlines kb_str) = None \<and> parse_expr eng query_str = None
      \<and> (\<exists>r. kb_query eng (splitlines kb_str) query_str = After ms r \<and> 5000 < ms) \<longrightarrow>
        query_ws1 eng kb_str query_str = Inl (ProviderError ''Reasoning query timed out after 5s.'')"
    using guarded_query_timeout [of eng kb_str query_str 5]
    by (auto simp: query_ws1_def t5)
  have d: "query_ws1 eng kb_str query_str = Inr v \<longrightarrow>
        (\<exists>t r. kb_query eng (splitlines kb_str) query_str = After t (Inr r) \<and> t \<le> 5000)"
    using guarded_query_Inr [of 5 eng kb_str query_str]
    by (auto simp: query_ws1_def split: sum.splits)
  have e: "query_ws2 eng kb_str query_str = Inr v \<or> query_ws3 eng kb_str query_str = Inr v \<longrightarrow>
        (\<exists>t r. kb_query eng (splitlines kb_str) query_str = After t (Inr r) \<and> t \<le> 10000)"
    using guarded_query_Inr [of 10 eng kb_str query_str]
    by (auto simp: query_ws2_def query_ws3_def split: sum.splits)
  from a b c d e show ?thesis by blast
qed

text \<open>
  The theorem at the stand-in engines: one returns \<^verbatim>\<open>None\<close> after a millisecond for a
  goal that is not in the knowledge base, the other needs a minute for every goal.
\<close>

theorem dispatcher_none_and_timeout_witness:
  "query_ws1 toy_engine ''a(b).'' ''c(d)'' = Inr (PList [])
   \<and> query_ws2 toy_engine ''a(b).'' ''c(d)'' = Inr (PList [])
   \<and> query_ws3 toy_engine ''a(b).'' ''c(d)'' = Inr (PList [])
   \<and> query_ws1 slow_engine ''a(b).'' ''c(d)'' = Inl (ProviderError ''Reasoning query timed out after 5s.'')
   \<and> query_ws2 slow_engine ''a(b).'' ''c(d)'' = Inl (ProviderError ''Reasoning query timed out after 10s.'')
   \<and> query_ws3 slow_engine ''a(b).'' ''c(d)'' = Inl (ProviderError ''Reasoning query timed out after 10s.'')
   \<and> (\<exists>t r. kb_query toy_engine (splitlines ''a(b).'') ''c(d)'' = After t (Inr r) \<and> t \<le> 10000)"
proof -
  have l: "kb_load toy_engine (splitlines ''a(b).'') = None" "parse_expr toy_engine ''c(d)'' = None"
    by code_simp+
  have l': "kb_load slow_engine (splitlines ''a(b).'') = None" "parse_expr slow_engine ''c(d)'' = None"
    by (simp_all add: slow_engine_def)
  have q: "kb_query toy_engine (splitlines ''a(b).'') ''c(d)'' = After 1 (Inr PNone)" by code_simp
  have s: "kb_query slow_engine (splitlines ''a(b).'') ''c(d)'' = After 60000 (Inr (PList []))"
    by (simp add: slow_engine_def)
  from dispatcher_none_and_timeout [of toy_engine "''a(b).''" "''c(d)''" 1 "PList []"] l q
  have 1: "query_ws1 toy_engine ''a(b).'' ''c(d)'' = Inr (PList [])
     \<and> query_ws2 toy_engine ''a(b).'' ''c(d)'' = Inr (PList [])
     \<and> query_ws3 toy_engine ''a(b).'' ''c(d)'' = Inr (PList [])" by simp
  with dispatcher_none_and_timeout [of toy_engine "''a(b).''" "''c(d)''" 1 "PList []"]
  have 2: "\<exists>t r. kb_query toy_engine (splitlines ''a(b).'') ''c(d)'' = After t (Inr r) \<and> t \<le> 10000"
    by blast
  from dispatcher_none_and_timeout [of slow_engine "''a(b).''" "''c(d)''" 60000 "PList []"] l' s
  have 3: "query_ws1 slow_engine ''a(b).'' ''c(d)'' = Inl (ProviderError ''Reasoning query timed out after 5s.'')
     \<and> query_ws2 slow_engine ''a(b).'' ''c(d)'' = Inl (ProviderError ''Reasoning query timed out after 10s.'')
     \<and> query_ws3 slow_engine ''a(b).'' ''c(d)'' = Inl (ProviderError ''Reasoning query timed out after 10s.'')"
    by simp
  from 1 2 3 show ?thesis by blast
qed

subsection \<open>C10: the text of the knowledge base after an appending assert\<close>

lemma appended_text:
  assumes "store_added w1 now s added = (kb, w')" and "added \<noteq> []"
    and "\<forall>c\<in>set added. trimmed c" and "writes w1 = writes w"
  shows "kb = strip (knowledgeBase s @ [LF] @ join [LF] added)
    \<and> kb = (if strip (knowledgeBase s) = [] then join [LF] added
            else lstrip (knowledgeBase s) @ [LF] @ join [LF] added)
    \<and> files w' (sessionId s) = Some (s\<lparr>knowledgeBase := kb, modifiedAt := now\<rparr>)
    \<and> writes w' = Suc (writes w)"
  using store_added_result [OF assms(1,2)] appended_kb_trimmed [OF assms(2,3)] assms(4)
  by (simp add: appended_kb_def)

text \<open>
  Claim C10, as amended. For every assert call in which at least one clause survives
  deduplication, the resulting text is the previous text, a newline, and the surviving
  clauses joined by newlines, with the whitespace stripped from both ends of the whole
  concatenation. The surviving clauses are trimmed, so only the front is affected:
  leading whitespace and blank lines of the previous text are removed, while its
  trailing whitespace and blank lines stay where they were, before the newline and
  the appended clauses. A previous text that is all whitespace disappears. The session
  is saved once with that text.
\<close>

theorem appending_assert_text:
  "(assert_into_session_ws3 pm3 gen now session_id text w = (Inr r3, w')
      \<and> files w session_id = Some s \<and> addedFacts r3 \<noteq> [] \<longrightarrow>
        knowledgeBase_resp r3 = strip (knowledgeBase s @ [LF] @ join [LF] (addedFacts r3))
        \<and> knowledgeBase_resp r3
            = (if strip (knowledgeBase s) = [] then join [LF] (addedFacts r3)
               else lstrip (knowledgeBase s) @ [LF] @ join [LF] (addedFacts r3))
        \<and> files w' (sessionId s)
            = Some (s\<lparr>knowledgeBase := knowledgeBase_resp r3, modifiedAt := now\<rparr>)
        \<and> writes w' = Suc (writes w))
   \<and> (assert_into_session_ws1 pm gen now session_id text w = (Inr r1, w')
      \<and> files w session_id = Some s \<and> addedFacts r1 \<noteq> [] \<longrightarrow>
        knowledgeBase_resp r1 = strip (knowledgeBase s @ [LF] @ join [LF] (addedFacts r1))
        \<and> knowledgeBase_resp r1
            = (if strip (knowledgeBase s) = [] then join [LF] (addedFacts r1)
               else lstrip (knowledgeBase s) @ [LF] @ join [LF] (addedFacts r1))
        \<and> files w' (sessionId s)
            = Some (s\<lparr>knowledgeBase := knowledgeBase_resp r1, modifiedAt := now\<rparr>)
        \<and> writes w' = Suc (writes w))
   \<and> (assert_into_session_ws2 pm gen now session_id text w = (Inr r2, w')
      \<and> files w session_id = Some s \<and> addedFacts r2 \<noteq> [] \<longrightarrow>
        knowledgeBase_resp r2 = strip (knowledgeBase s @ [LF] @ join [LF] (addedFacts r2))
        \<and> knowledgeBase_resp r2
            = (if strip (knowledgeBase s) = [] then join [LF] (addedFacts r2)
               else lstrip (knowledgeBase s) @ [LF] @ join [LF] (addedFacts r2))
        \<and> files w' (sessionId s)
            = Some (s\<lparr>knowledgeBase := knowledgeBase_resp r2, modifiedAt := now\<rparr>)
        \<and> writes w' = Suc (writes w))"
proof (intro conjI impI)
  assume a: "assert_into_session_ws3 pm3 gen now session_id text w = (Inr r3, w')
      \<and> files w session_id = Some s \<and> addedFacts r3 \<noteq> []"
  then obtain s' i w1 t w2 where s': "files w session_id = Some s'"
    and c1: "run_prompt_chain pm3 gen ''INTENT_CLASSIFIER'' [(''text'', KStr text)] w = (Inr i, w1)"
    and c2: "run_prompt_chain pm3 gen (if intent r3 = ''RULE'' then ''NL_TO_RULES'' else ''NL_TO_FACTS'')
           [(''text'', KStr text), (''schema'', KList (get_kb_schema_ws3 (knowledgeBase s')))] w1
         = (Inr t, w2)"
    and tp: "translatedProlog r3 = extract_prolog_ws3 t"
    and ad: "addedFacts r3 = added_ws3 (knowledgeBase s') (translatedProlog r3)"
    and st: "store_added w2 now s' (addedFacts r3) = (knowledgeBase_resp r3, w')"
    by (auto elim: assert_ws3_success)
  from a s' have e: "s' = s" by simp
  from run_prompt_chain_frame [OF c1] run_prompt_chain_frame [OF c2]
  have wr: "writes w2 = writes w" by simp
  from ad tp added_ws3_subset [of "knowledgeBase s'" "translatedProlog r3"]
    extract_prolog_ws3_trimmed [of t]
  have tr: "\<forall>c\<in>set (addedFacts r3). trimmed c" by auto
  from a have ne: "addedFacts r3 \<noteq> []" by simp
  from appended_text [OF st [unfolded e] ne tr wr]
  show "knowledgeBase_resp r3 = strip (knowledgeBase s @ [LF] @ join [LF] (addedFacts r3))"
    and "knowledgeBase_resp r3
            = (if strip (knowledgeBase s) = [] then join [LF] (addedFacts r3)
               else lstrip (knowledgeBase s) @ [LF] @ join [LF] (addedFacts r3))"
    and "files w' (sessionId s)
            = Some (s\<lparr>knowledgeBase := knowledgeBase_resp r3, modifiedAt := now\<rparr>)"
    and "writes w' = Suc (writes w)" by blast+
next
  assume a: "assert_into_session_ws1 pm gen now session_id text w = (Inr r1, w')
      \<and> files w session_id = Some s \<and> addedFacts r1 \<noteq> []"
  then obtain s' t w1 where s': "files w session_id = Some s'"
    and g: "generate gen w (pm ''NL_TO_RULES'' [(''text'', KStr text)]) = (Inr t, w1)"
    and ad: "addedFacts r1 = added_ws1 (knowledgeBase s') (extract_prolog_ws1 t)"
    and st: "store_added w1 now s' (addedFacts r1) = (knowledgeBase_resp r1, w')"
    by (auto elim: assert_ws1_success)
  from a s' have e: "s' = s" by simp
  from generate_frame [OF g] have wr: "writes w1 = writes w" by simp
  from ad added_ws1_subset [of "knowledgeBase s'" "extract_prolog_ws1 t"]
    extract_prolog_ws1_trimmed [of t]
  have tr: "\<forall>c\<in>set (addedFacts r1). trimmed c" by auto
  from a have ne: "addedFacts r1 \<noteq> []" by simp
  from appended_text [OF st [unfolded e] ne tr wr]
  show "knowledgeBase_resp r1 = strip (knowledgeBase s @ [LF] @ join [LF] (addedFacts r1))"
    and "knowledgeBase_resp r1
            = (if strip (knowledgeBase s) = [] then join [LF] (addedFacts r1)
               else lstrip (knowledgeBase s) @ [LF] @ join [LF] (addedFacts r1))"
    and "files w' (sessionId s)
            = Some (s\<lparr>knowledgeBase := knowledgeBase_resp r1, modifiedAt := now\<rparr>)"
    and "writes w' = Suc (writes w)" by blast+
next
  assume a: "assert_into_session_ws2 pm gen now session_id text w = (Inr r2, w')
      \<and> files w session_id = Some s \<and> addedFacts r2 \<noteq> []"
  then obtain s' t w1 where s': "files w session_id = Some s'"
    and g: "generate gen w (pm ''NL_TO_RULES''
           [(''text'', KStr text), (''schema'', KList (get_kb_schema_ws2 (knowledgeBase s')))])
         = (Inr t, w1)"
    and tp: "translatedProlog r2 = extract_prolog_ws2 t"
    and ad: "addedFacts r2 = added_ws1 (knowledgeBase s') (translatedProlog r2)"
    and st: "store_added w1 now s' (addedFacts r2) = (knowledgeBase_resp r2, w')"
    by (auto elim: assert_ws2_success)
  from a s' have e: "s' = s" by simp
  from generate_frame [OF g] have wr: "writes w1 = writes w" by simp
  from ad tp added_ws1_subset [of "knowledgeBase s'" "translatedProlog r2"]
    extract_prolog_ws2_trimmed [of t]
  have tr: "\<forall>c\<in>set (addedFacts r2). trimmed c" by auto
  from a have ne: "addedFacts r2 \<noteq> []" by simp
  from appended_text [OF st [unfolded e] ne tr wr]
  show "knowledgeBase_resp r2 = strip (knowledgeBase s @ [LF] @ join [LF] (addedFacts r2))"
    and "knowledgeBase_resp r2
            = (if strip (knowledgeBase s) = [] then join [LF] (addedFacts r2)
               else lstrip (knowledgeBase s) @ [LF] @ join [LF] (addedFacts r2))"
    and "files w' (sessionId s)
            = Some (s\<lparr>knowledgeBase := knowledgeBase_resp r2, modifiedAt := now\<rparr>)"
    and "writes w' = Suc (writes w)" by blast+
qed

text \<open>
  The theorem at an assert call of mcrws3.py on the stored text \<^verbatim>\<open>a(b).\<close> with a blank
  line before it and a newline after it; the backend answers \<^verbatim>\<open>FACT\<close> and \<^verbatim>\<open>c(d).\<close>. The
  blank line in front is gone, the newline behind \<^verbatim>\<open>a(b).\<close> is still there.
\<close>

theorem appending_assert_text_witness:
  "fst (assert_into_session_ws3 one_variant scripted ''t1'' ''s1'' ''C is d.''
          (world0 ([LF] @ ''a(b).'' @ [LF]) [Inr ''FACT'', Inr ''c(d).'']))
     = Inr \<lparr>addedFacts = [''c(d).''], knowledgeBase_resp = ''a(b).'' @ [LF, LF] @ ''c(d).'',
            translatedProlog = [''c(d).''], intent = ''FACT''\<rparr>
   \<and> ''a(b).'' @ [LF, LF] @ ''c(d).'' = strip (([LF] @ ''a(b).'' @ [LF]) @ [LF] @ join [LF] [''c(d).''])
   \<and> ''a(b).'' @ [LF, LF] @ ''c(d).'' = lstrip ([LF] @ ''a(b).'' @ [LF]) @ [LF] @ join [LF] [''c(d).'']
   \<and> writes (snd (assert_into_session_ws3 one_variant scripted ''t1'' ''s1'' ''C is d.''
          (world0 ([LF] @ ''a(b).'' @ [LF]) [Inr ''FACT'', Inr ''c(d).'' :: error + string])))
       = Suc (writes (world0 ([LF] @ ''a(b).'' @ [LF]) [Inr ''FACT'', Inr ''c(d).'' :: error + string]))"
proof -
  let ?kb = "[LF] @ ''a(b).'' @ [LF]"
  let ?w = "world0 ?kb [Inr ''FACT'', Inr ''c(d).'' :: error + string]"
  let ?run = "assert_into_session_ws3 one_variant scripted ''t1'' ''s1'' ''C is d.'' ?w"
  let ?r = "\<lparr>addedFacts = [''c(d).''], knowledgeBase_resp = ''a(b).'' @ [LF, LF] @ ''c(d).'',
            translatedProlog = [''c(d).''], intent = ''FACT''\<rparr>"
  have f: "fst ?run = Inr ?r" by code_simp
  then have r: "?run = (Inr ?r, snd ?run)" by (metis prod.collapse)
  have s: "files ?w ''s1'' = Some (session0 ?kb)" by (simp add: world0_def)
  have k: "knowledgeBase (session0 ?kb) = ?kb" by (simp add: session0_def)
  have n: "strip ?kb \<noteq> []" by code_simp
  have a: "addedFacts ?r = [''c(d).'']" and b: "knowledgeBase_resp ?r = ''a(b).'' @ [LF, LF] @ ''c(d).''"
    by simp_all
  have "?run = (Inr ?r, snd ?run) \<and> files ?w ''s1'' = Some (session0 ?kb) \<and> addedFacts ?r \<noteq> []"
    using r s by simp
  from appending_assert_text [of one_variant scripted "''t1''" "''s1''" "''C is d.''" ?w ?r
      "snd ?run" "session0 ?kb", THEN conjunct1, THEN mp, OF this]
  have "knowledgeBase_resp ?r = strip (knowledgeBase (session0 ?kb) @ [LF] @ join [LF] (addedFacts ?r))"
    and "knowledgeBase_resp ?r
          = (if strip (knowledgeBase (session0 ?kb)) = [] then join [LF] (addedFacts ?r)
             else lstrip (knowledgeBase (session0 ?kb)) @ [LF] @ join [LF] (addedFacts ?r))"
    and "writes (snd ?run) = Suc (writes ?w)" by blast+
  then have "''a(b).'' @ [LF, LF] @ ''c(d).'' = strip (?kb @ [LF] @ join [LF] [''c(d).''])"
    and "''a(b).'' @ [LF, LF] @ ''c(d).'' = lstrip ?kb @ [LF] @ join [LF] [''c(d).'']"
    and "writes (snd ?run) = Suc (writes ?w)"
    unfolding k a b using n by simp_all
  with f show ?thesis by blast
qed

text \<open>
  The claim as it was stated fails in its second half: the stored text \<^verbatim>\<open>a(b).\<close> ends
  with a newline, and after an assert call that appends \<^verbatim>\<open>c(d).\<close> that newline is still
  in the text, which now holds a blank line; it is not the trimmed previous text, a
  newline and the clause.
\<close>

theorem appending_assert_keeps_trailing_newline:
  "fst (assert_into_session_ws3 one_variant scripted ''t1'' ''s1'' ''C is d.''
          (world0 (''a(b).'' @ [LF]) [Inr ''FACT'', Inr ''c(d).'']))
     = Inr \<lparr>addedFacts = [''c(d).''], knowledgeBase_resp = ''a(b).'' @ [LF, LF] @ ''c(d).'',
            translatedProlog = [''c(d).''], intent = ''FACT''\<rparr>
   \<and> ''a(b).'' @ [LF, LF] @ ''c(d).'' \<noteq> strip (''a(b).'' @ [LF]) @ [LF] @ ''c(d).''
   \<and> fst (assert_into_session_ws1 task_name scripted ''t1'' ''s1'' ''C is d.''
          (world0 (''a(b).'' @ [LF]) [Inr ''c(d).'']))
     = Inr \<lparr>addedFacts = [''c(d).''], knowledgeBase_resp = ''a(b).'' @ [LF, LF] @ ''c(d).''\<rparr>"
  by code_simp

end
